theory Spec2Isabelle
  imports Main "HOL-Library.Sublist" "HOL-Library.AList"
begin

section \<open>Strings\<close>

text \<open>
  JavaScript strings are modelled as \<^typ>\<open>string\<close>, read as the UTF-8 encoding of the
  text. Every pattern the program searches for is ASCII, and an ASCII byte never occurs
  inside a multi-byte UTF-8 sequence, so searching the bytes agrees with searching the
  code units.
\<close>

definition includes' :: "string \<Rightarrow> string \<Rightarrow> bool" where
  \<comment> \<open>\<^verbatim>\<open>s.includes(p)\<close>\<close>
  "includes' s p = sublist p s"

definition endsWith :: "string \<Rightarrow> string \<Rightarrow> bool" where
  \<comment> \<open>\<^verbatim>\<open>s.endsWith(p)\<close>\<close>
  "endsWith s p = suffix p s"

definition startsWith :: "string \<Rightarrow> string \<Rightarrow> bool" where
  \<comment> \<open>\<^verbatim>\<open>s.startsWith(p)\<close>\<close>
  "startsWith s p = prefix p s"

definition join :: "string \<Rightarrow> string list \<Rightarrow> string" where
  \<comment> \<open>\<^verbatim>\<open>xs.join(sep)\<close>\<close>
  "join sep xs = (case xs of [] \<Rightarrow> [] | y # ys \<Rightarrow> y @ concat (map (\<lambda>z. sep @ z) ys))"

definition digit :: "nat \<Rightarrow> char" where
  \<comment> \<open>Applied to numbers below ten only.\<close>
  "digit d = ''0123456789'' ! d"

fun decimal :: "nat \<Rightarrow> string" where
  "decimal n = (if n < 10 then [digit n] else decimal (n div 10) @ [digit (n mod 10)])"

declare decimal.simps [simp del]

definition showInt :: "int \<Rightarrow> string" where
  \<comment> \<open>\<^verbatim>\<open>String(n)\<close> for an integer of magnitude below \<open>10\<^sup>2\<^sup>1\<close>, where JavaScript prints all
      digits.\<close>
  "showInt i = (if i < 0 then CHR ''-'' # decimal (nat (- i)) else decimal (nat i))"

definition utf8 :: "nat \<Rightarrow> string" where
  \<comment> \<open>The bytes of one UTF-16 code unit taken as a code point of the basic plane. A
      surrogate is encoded like any other value of its range, so a surrogate pair stays
      two three-byte groups.\<close>
  "utf8 n =
    (if n < 0x80 then [char_of n]
     else if n < 0x800 then [char_of (0xC0 + n div 64), char_of (0x80 + n mod 64)]
     else [char_of (0xE0 + n div 4096), char_of (0x80 + (n div 64) mod 64),
           char_of (0x80 + n mod 64)])"

subsection \<open>\<^verbatim>\<open>String.prototype.trim\<close>\<close>

text \<open>
  The code points that ECMAScript counts as white space or as line terminators, each as
  its UTF-8 bytes: U+0009 to U+000D, U+0020, U+00A0, U+1680, U+2000 to U+200A, U+2028,
  U+2029, U+202F, U+205F, U+3000 and U+FEFF.
\<close>

definition whiteSpace :: "string list" where
  "whiteSpace =
    [[CHR 0x09], [CHR 0x0A], [CHR 0x0B], [CHR 0x0C], [CHR 0x0D], [CHR 0x20],
     [CHR 0xC2, CHR 0xA0],
     [CHR 0xE1, CHR 0x9A, CHR 0x80],
     [CHR 0xE2, CHR 0x80, CHR 0x80], [CHR 0xE2, CHR 0x80, CHR 0x81],
     [CHR 0xE2, CHR 0x80, CHR 0x82], [CHR 0xE2, CHR 0x80, CHR 0x83],
     [CHR 0xE2, CHR 0x80, CHR 0x84], [CHR 0xE2, CHR 0x80, CHR 0x85],
     [CHR 0xE2, CHR 0x80, CHR 0x86], [CHR 0xE2, CHR 0x80, CHR 0x87],
     [CHR 0xE2, CHR 0x80, CHR 0x88], [CHR 0xE2, CHR 0x80, CHR 0x89],
     [CHR 0xE2, CHR 0x80, CHR 0x8A],
     [CHR 0xE2, CHR 0x80, CHR 0xA8], [CHR 0xE2, CHR 0x80, CHR 0xA9],
     [CHR 0xE2, CHR 0x80, CHR 0xAF],
     [CHR 0xE2, CHR 0x81, CHR 0x9F],
     [CHR 0xE3, CHR 0x80, CHR 0x80],
     [CHR 0xEF, CHR 0xBB, CHR 0xBF]]"

definition stripOne :: "string list \<Rightarrow> string \<Rightarrow> string option" where
  \<comment> \<open>Removes one leading occurrence of the first listed non-empty sequence that the
      string starts with.\<close>
  "stripOne ws s =
    map_option (\<lambda>w. drop (length w) s) (find (\<lambda>w. w \<noteq> [] \<and> prefix w s) ws)"

function stripLeading :: "string list \<Rightarrow> string \<Rightarrow> string" where
  "stripLeading ws s = (case stripOne ws s of None \<Rightarrow> s | Some r \<Rightarrow> stripLeading ws r)"
  by pat_completeness auto
termination
proof (relation "measure (\<lambda>(ws, s). length s)")
  show "wf (measure (\<lambda>(ws :: string list, s :: string). length s))"
    by simp
next
  fix ws :: "string list" and s r :: string
  assume "stripOne ws s = Some r"
  then obtain w where w: "find (\<lambda>w. w \<noteq> [] \<and> prefix w s) ws = Some w"
    and r: "r = drop (length w) s"
    by (auto simp: stripOne_def)
  from w have "w \<noteq> []" and "prefix w s"
    by (auto simp: find_Some_iff)
  then have "length r < length s"
    using r by (cases w; cases s) (auto simp: prefix_def)
  then show "((ws, r), (ws, s)) \<in> measure (\<lambda>(ws, s). length s)"
    by simp
qed

declare stripLeading.simps [simp del]

definition trimStart :: "string \<Rightarrow> string" where
  "trimStart s = stripLeading whiteSpace s"

definition trimEnd :: "string \<Rightarrow> string" where
  "trimEnd s = rev (stripLeading (map rev whiteSpace) (rev s))"

definition trim :: "string \<Rightarrow> string" where
  \<comment> \<open>\<^verbatim>\<open>s.trim()\<close>\<close>
  "trim s = trimEnd (trimStart s)"

subsection \<open>\<^verbatim>\<open>JSON.parse\<close>\<close>

text \<open>
  The value that \<^verbatim>\<open>JSON.parse\<close> builds. A number keeps its lexeme (floating point is not
  modelled). An object is an association list; a repeated key overwrites the earlier
  value, as the built-in does.
\<close>

datatype json =
    JNull
  | JBool bool
  | JNumber string
  | JString string
  | JArray "json list"
  | JObject "(string \<times> json) list"

abbreviation DQ :: char where "DQ \<equiv> CHR 0x22"
abbreviation BSL :: char where "BSL \<equiv> CHR 0x5C"
abbreviation LF :: char where "LF \<equiv> CHR 0x0A"

definition isJsonWs :: "char \<Rightarrow> bool" where
  "isJsonWs c = (c = CHR 0x20 \<or> c = CHR 0x09 \<or> c = LF \<or> c = CHR 0x0D)"

definition skipWs :: "string \<Rightarrow> string" where
  "skipWs s = dropWhile isJsonWs s"

definition isDigit :: "char \<Rightarrow> bool" where
  "isDigit c = (c \<in> set ''0123456789'')"

definition hexVal :: "char \<Rightarrow> nat option" where
  "hexVal c =
    (let n = (of_char c :: nat)
     in if 48 \<le> n \<and> n \<le> 57 then Some (n - 48)
        else if 65 \<le> n \<and> n \<le> 70 then Some (n - 55)
        else if 97 \<le> n \<and> n \<le> 102 then Some (n - 87)
        else None)"

definition simpleEscape :: "char \<Rightarrow> char option" where
  "simpleEscape e =
    (if e = DQ then Some DQ
     else if e = BSL then Some BSL
     else if e = CHR ''/'' then Some CHR ''/''
     else if e = CHR ''b'' then Some (CHR 0x08)
     else if e = CHR ''f'' then Some (CHR 0x0C)
     else if e = CHR ''n'' then Some LF
     else if e = CHR ''r'' then Some (CHR 0x0D)
     else if e = CHR ''t'' then Some (CHR 0x09)
     else None)"

text \<open>The characters of a string literal after its opening quote, up to the closing one.\<close>

fun parseChars :: "string \<Rightarrow> string \<Rightarrow> (string \<times> string) option" where
  "parseChars acc [] = None"
| "parseChars acc (c # cs) =
    (if c = DQ then Some (rev acc, cs)
     else if c = BSL then
       (case cs of
          [] \<Rightarrow> None
        | e # es \<Rightarrow>
            if e = CHR ''u'' then
              (case es of
                 h1 # h2 # h3 # h4 # rest \<Rightarrow>
                   (case (hexVal h1, hexVal h2, hexVal h3, hexVal h4) of
                      (Some a, Some b, Some c, Some d) \<Rightarrow>
                        parseChars (rev (utf8 (((a * 16 + b) * 16 + c) * 16 + d)) @ acc) rest
                    | _ \<Rightarrow> None)
               | _ \<Rightarrow> None)
            else
              (case simpleEscape e of
                 None \<Rightarrow> None
               | Some x \<Rightarrow> parseChars (x # acc) es))
     else if (of_char c :: nat) < 0x20 then None
     else parseChars (c # acc) cs)"

definition digits1 :: "string \<Rightarrow> (string \<times> string) option" where
  \<comment> \<open>One or more decimal digits.\<close>
  "digits1 s = (if takeWhile isDigit s = [] then None
                else Some (takeWhile isDigit s, dropWhile isDigit s))"

text \<open>
  A number: an optional minus sign, an integer part without a leading zero, an optional
  fraction and an optional exponent. Each part returns its lexeme and the rest.
\<close>

definition optSign :: "string \<Rightarrow> string \<times> string" where
  "optSign s = (if prefix ''-'' s then (''-'', tl s) else ([], s))"

definition intPart :: "string \<Rightarrow> (string \<times> string) option" where
  "intPart s = (if prefix ''0'' s then Some (''0'', tl s) else digits1 s)"

definition fracPart :: "string \<Rightarrow> (string \<times> string) option" where
  "fracPart s =
    (if prefix ''.'' s then map_option (\<lambda>(d, r). (CHR ''.'' # d, r)) (digits1 (tl s))
     else Some ([], s))"

definition expPart :: "string \<Rightarrow> (string \<times> string) option" where
  "expPart s =
    (if prefix ''e'' s \<or> prefix ''E'' s then
       (if prefix ''+'' (tl s) \<or> prefix ''-'' (tl s)
        then map_option (\<lambda>(d, r). (take 2 s @ d, r)) (digits1 (drop 2 s))
        else map_option (\<lambda>(d, r). (take 1 s @ d, r)) (digits1 (tl s)))
     else Some ([], s))"

definition parseNumber :: "string \<Rightarrow> (string \<times> string) option" where
  "parseNumber s =
    (case optSign s of
       (sign, s1) \<Rightarrow>
         (case intPart s1 of
            None \<Rightarrow> None
          | Some (i, s2) \<Rightarrow>
              (case fracPart s2 of
                 None \<Rightarrow> None
               | Some (f, s3) \<Rightarrow>
                   (case expPart s3 of
                      None \<Rightarrow> None
                    | Some (e, s4) \<Rightarrow> Some (sign @ i @ f @ e, s4)))))"

text \<open>
  The recursive descent is bounded by fuel, which every call spends. A value of \<open>n\<close>
  characters needs at most \<open>2 * n + 1\<close>, the amount \<open>JSON_parse\<close> supplies (lemma
  \<open>JSON_parse_any_fuel\<close>). \<open>parseElements\<close> and \<open>parseMembers\<close> start at the first
  element or member and end after the closing bracket.
\<close>

fun parseValue :: "nat \<Rightarrow> string \<Rightarrow> (json \<times> string) option"
  and parseElements :: "nat \<Rightarrow> json list \<Rightarrow> string \<Rightarrow> (json list \<times> string) option"
  and parseMembers ::
    "nat \<Rightarrow> (string \<times> json) list \<Rightarrow> string \<Rightarrow> ((string \<times> json) list \<times> string) option"
where
  "parseValue 0 s = None"
| "parseValue (Suc n) s =
    (if prefix ''null'' s then Some (JNull, drop 4 s)
     else if prefix ''true'' s then Some (JBool True, drop 4 s)
     else if prefix ''false'' s then Some (JBool False, drop 5 s)
     else
       (case s of
          [] \<Rightarrow> None
        | c # cs \<Rightarrow>
            if c = DQ then map_option (\<lambda>(t, r). (JString t, r)) (parseChars [] cs)
            else if c = CHR ''['' then
              (if prefix '']'' (skipWs cs) then Some (JArray [], tl (skipWs cs))
               else map_option (\<lambda>(vs, r). (JArray vs, r)) (parseElements n [] (skipWs cs)))
            else if c = CHR ''{'' then
              (if prefix ''}'' (skipWs cs) then Some (JObject [], tl (skipWs cs))
               else map_option (\<lambda>(ms, r). (JObject ms, r)) (parseMembers n [] (skipWs cs)))
            else map_option (\<lambda>(l, r). (JNumber l, r)) (parseNumber s)))"
| "parseElements 0 acc s = None"
| "parseElements (Suc n) acc s =
    (case parseValue n s of
       None \<Rightarrow> None
     | Some (v, r) \<Rightarrow>
         (case skipWs r of
            [] \<Rightarrow> None
          | c # r' \<Rightarrow>
              if c = CHR '','' then parseElements n (v # acc) (skipWs r')
              else if c = CHR '']'' then Some (rev (v # acc), r')
              else None))"
| "parseMembers 0 acc s = None"
| "parseMembers (Suc n) acc s =
    (case s of
       [] \<Rightarrow> None
     | q # cs \<Rightarrow>
         if q \<noteq> DQ then None
         else
           (case parseChars [] cs of
              None \<Rightarrow> None
            | Some (k, r) \<Rightarrow>
                (case skipWs r of
                   [] \<Rightarrow> None
                 | d # r1 \<Rightarrow>
                     if d \<noteq> CHR '':'' then None
                     else
                       (case parseValue n (skipWs r1) of
                          None \<Rightarrow> None
                        | Some (v, r2) \<Rightarrow>
                            (case skipWs r2 of
                               [] \<Rightarrow> None
                             | e # r3 \<Rightarrow>
                                 if e = CHR '','' then
                                   parseMembers n (AList.update k v acc) (skipWs r3)
                                 else if e = CHR ''}'' then Some (AList.update k v acc, r3)
                                 else None)))))"

definition trimJsonWs :: "string \<Rightarrow> string" where
  "trimJsonWs s = rev (skipWs (rev (skipWs s)))"

definition JSON_parse :: "string \<Rightarrow> json option" where
  \<comment> \<open>A JSON text is one value with white space around it. \<open>None\<close> stands for the
      \<^verbatim>\<open>SyntaxError\<close> that the built-in throws.\<close>
  "JSON_parse s =
    (case parseValue (2 * length (trimJsonWs s) + 1) (trimJsonWs s) of
       None \<Rightarrow> None
     | Some (v, r) \<Rightarrow> if r = [] then Some v else None)"

fun member :: "string \<Rightarrow> json \<Rightarrow> json option" where
  "member k (JObject ms) = map_of ms k"
| "member k _ = None"

section \<open>Types (types.ts)\<close>

text \<open>
  The browser's \<^verbatim>\<open>File\<close>: only its name and its reported media type are read by the
  program. \<^verbatim>\<open>FileData.type\<close> is declared as a union of four literals, which TypeScript
  erases; at run time it is a string, and \<^verbatim>\<open>validateMimeType\<close> compares it with a
  longer list, so it is a string here.
\<close>

record File =
  name :: string
  type :: string

record FileData =
  id' :: string
  file' :: File
  base64 :: string
  type' :: string

abbreviation PDF :: string where "PDF \<equiv> ''application/pdf''"
abbreviation PNG :: string where "PNG \<equiv> ''image/png''"
abbreviation JPEG :: string where "JPEG \<equiv> ''image/jpeg''"
abbreviation SPREADSHEET :: string where
  "SPREADSHEET \<equiv> ''application/vnd.openxmlformats-officedocument.spreadsheetml.sheet''"

section \<open>Ingestion (components/FileUpload.tsx)\<close>

text \<open>
  \<^verbatim>\<open>processFile\<close> assigns \<^verbatim>\<open>mimeType\<close> in three consecutive \<^verbatim>\<open>if\<close> statements without
  \<^verbatim>\<open>else\<close>: each one that fires overwrites the value left by the ones before it. The
  payload comes from \<^verbatim>\<open>fileToBase64\<close> and the identifier from \<^verbatim>\<open>Math.random\<close>; both are
  inputs of the model.
\<close>

definition mimeTypeOf :: "File \<Rightarrow> string" where
  "mimeTypeOf f =
    (let mimeType = PDF;
         mimeType = (if includes' (type f) ''png'' then PNG else mimeType);
         mimeType = (if includes' (type f) ''jpeg'' \<or> includes' (type f) ''jpg''
                     then JPEG else mimeType);
         mimeType = (if includes' (type f) ''sheet'' \<or> endsWith (name f) ''.xlsx''
                     then SPREADSHEET else mimeType)
     in mimeType)"

definition processFile :: "string \<Rightarrow> string \<Rightarrow> File \<Rightarrow> FileData" where
  "processFile rnd b64 f = \<lparr> id' = rnd, file' = f, base64 = b64, type' = mimeTypeOf f \<rparr>"

section \<open>The service (services/geminiService.ts)\<close>

text \<open>A thrown \<^verbatim>\<open>new Error(message)\<close>.\<close>

datatype error = Error string

definition supportedTypes :: "string list" where
  "supportedTypes =
    [''application/pdf'',
     ''image/png'',
     ''image/jpeg'',
     ''image/jpg'',
     ''image/webp'',
     ''application/vnd.openxmlformats-officedocument.spreadsheetml.sheet'',
     ''application/vnd.ms-excel'']"

definition validateMimeType :: "FileData \<Rightarrow> error + unit" where
  "validateMimeType fileData =
    (if type' fileData \<notin> set supportedTypes
     then Inl (Error (''Unsupported file type: '' @ type' fileData
                      @ ''. Please upload PDF, Images, or Excel files.''))
     else Inr ())"

definition isExcel :: "FileData \<Rightarrow> bool" where
  "isExcel fileData =
    (includes' (type' fileData) ''spreadsheet'' \<or> includes' (type' fileData) ''excel''
     \<or> endsWith (name (file' fileData)) ''.xlsx'' \<or> endsWith (name (file' fileData)) ''.xls'')"

text \<open>
  One entry of the \<^verbatim>\<open>parts\<close> array of a request. The first entry of every request is
  the instruction text, a fixed template with the uploaded file names interpolated; it
  is kept as the template's name and the names, its wording is not modelled.
\<close>

datatype Template = CompletenessTemplate | AnalysisTemplate

datatype Part =
    Instruction Template "string list"
  | Text string
  | InlineData string string  \<comment> \<open>\<^verbatim>\<open>{inlineData: {mimeType, data}}\<close>\<close>

text \<open>
  What awaiting \<^verbatim>\<open>ai.models.generateContent\<close> does: it throws an \<^verbatim>\<open>Error\<close> with a message
  or some other value, or it returns a result whose \<^verbatim>\<open>text\<close> is a string or undefined.
\<close>

datatype Outcome =
    Throws "string option"
  | Result "string option"

record Request =
  model :: string
  parts :: "Part list"
  responseSchema :: Template

text \<open>
  What the spreadsheet library hands back. A worksheet is taken by the text of its cells,
  row by row. A workbook is what \<^verbatim>\<open>XLSX.read\<close> returns: \<^verbatim>\<open>SheetNames\<close>, the names of its
  sheets in the order of the workbook, and \<^verbatim>\<open>Sheets\<close>, the sheet under each name.
\<close>

type_synonym Sheet = "string list list"

record Workbook =
  SheetNames :: "string list"
  Sheets :: "(string \<times> Sheet) list"

text \<open>
  Everything outside the program: the configured key, the two entry points of the
  spreadsheet library that the program calls (\<^verbatim>\<open>XLSX.read\<close> on a base64 payload and
  \<^verbatim>\<open>XLSX.utils.sheet_to_csv\<close> on a sheet or on \<^verbatim>\<open>undefined\<close>, each \<open>None\<close> where the call
  throws), the remote service, and the message of the \<^verbatim>\<open>SyntaxError\<close> that \<^verbatim>\<open>JSON.parse\<close>
  throws on a text.
\<close>

record Env =
  API_KEY :: "string option"
  XLSX_read :: "string \<Rightarrow> Workbook option"
  sheet_to_csv :: "Sheet option \<Rightarrow> string option"
  generateContent :: "Request \<Rightarrow> Outcome"
  syntaxErrorMessage :: "string \<Rightarrow> string"

text \<open>The observable steps of one service call, in the order they happen.\<close>

datatype Event =
    Normalize FileData  \<comment> \<open>a call of \<^verbatim>\<open>getFileContentPart\<close> on the file\<close>
  | Generate Request    \<comment> \<open>an outbound call of \<^verbatim>\<open>generateContent\<close>\<close>

text \<open>
  \<^verbatim>\<open>workbook.SheetNames[0]\<close> is undefined for a workbook without sheets, and
  \<^verbatim>\<open>workbook.Sheets[sheetName]\<close> is undefined where no sheet has that name.
\<close>

definition firstSheetName :: "Workbook \<Rightarrow> string option" where
  "firstSheetName workbook = (case SheetNames workbook of [] \<Rightarrow> None | n # ns \<Rightarrow> Some n)"

definition sheetNamed :: "Workbook \<Rightarrow> string option \<Rightarrow> Sheet option" where
  "sheetNamed workbook sheetName =
    (case sheetName of None \<Rightarrow> None | Some n \<Rightarrow> map_of (Sheets workbook) n)"

definition getFileContentPart :: "Env \<Rightarrow> FileData \<Rightarrow> string \<Rightarrow> error + Part" where
  "getFileContentPart env fileData label =
    (if isExcel fileData then
       (case XLSX_read env (base64 fileData) of
          None \<Rightarrow>
            Inl (Error (''Failed to read Excel file: '' @ name (file' fileData)
                        @ ''. Please ensure it is a valid .xlsx file.''))
        | Some workbook \<Rightarrow>
            (let sheetName = firstSheetName workbook;
                 sheet = sheetNamed workbook sheetName
             in case sheet_to_csv env sheet of
                  None \<Rightarrow>
                    Inl (Error (''Failed to read Excel file: '' @ name (file' fileData)
                                @ ''. Please ensure it is a valid .xlsx file.''))
                | Some csvText \<Rightarrow>
                    Inr (Text (''DOCUMENT_CONTENT ('' @ label @ ''):'' @ [LF] @ csvText @ [LF]
                               @ ''[End of CSV content]''))))
     else Inr (InlineData (type' fileData) (base64 fileData)))"

definition falsy :: "string option \<Rightarrow> bool" where
  \<comment> \<open>\<^verbatim>\<open>!s\<close> for a string that may be undefined.\<close>
  "falsy s = (case s of None \<Rightarrow> True | Some t \<Rightarrow> t = [])"

definition stripFence :: "string \<Rightarrow> string" where
  \<comment> \<open>The two regular expressions are anchored: \<^verbatim>\<open>^\<close> at the start and \<^verbatim>\<open>$\<close> (without
      the multiline flag) at the end of the text.\<close>
  "stripFence jsonStr =
    (if startsWith jsonStr ''```json'' then
       (let s1 = (if prefix (''```json'' @ [LF]) jsonStr then drop 8 jsonStr else jsonStr);
            s2 = (if suffix (LF # ''```'') s1 then take (length s1 - 4) s1 else s1)
        in s2)
     else jsonStr)"

text \<open>
  The body of the \<^verbatim>\<open>try\<close> block once the call has been awaited. \<open>Inl\<close> is the value
  caught: \<open>Some m\<close> an \<^verbatim>\<open>Error\<close> with message \<open>m\<close>, \<open>None\<close> a value that is not an
  \<^verbatim>\<open>Error\<close>.
\<close>

definition decodeResponse :: "Env \<Rightarrow> string \<Rightarrow> Outcome \<Rightarrow> string option + json" where
  "decodeResponse env noResponse outcome =
    (case outcome of
       Throws e \<Rightarrow> Inl e
     | Result None \<Rightarrow> Inl (Some noResponse)
     | Result (Some text) \<Rightarrow>
         if text = [] then Inl (Some noResponse)
         else
           (let jsonStr = stripFence (trim text)
            in case JSON_parse jsonStr of
                 None \<Rightarrow> Inl (Some (syntaxErrorMessage env jsonStr))
               | Some v \<Rightarrow> Inr v))"

definition caught :: "string \<Rightarrow> string option + json \<Rightarrow> error + json" where
  \<comment> \<open>The \<^verbatim>\<open>catch\<close> block: rethrows with the prefix and the message, or
      \<^verbatim>\<open>"Unknown error"\<close>.\<close>
  "caught pre r =
    (case r of
       Inl e \<Rightarrow> Inl (Error (pre @ (case e of Some m \<Rightarrow> m | None \<Rightarrow> ''Unknown error'')))
     | Inr v \<Rightarrow> Inr v)"

definition checkFileCompleteness ::
  "Env \<Rightarrow> FileData \<Rightarrow> string list \<Rightarrow> Event list \<times> (error + json)" where
  "checkFileCompleteness env masterList filenames =
    (if falsy (API_KEY env) then ([], Inl (Error ''API Key missing''))
     else
       (case validateMimeType masterList of
          Inl e \<Rightarrow> ([], Inl e)
        | Inr _ \<Rightarrow>
            (case getFileContentPart env masterList ''Master List'' of
               Inl e \<Rightarrow> ([Normalize masterList], Inl e)
             | Inr masterContent \<Rightarrow>
                 (let attached =
                        (case masterContent of
                           Text t \<Rightarrow> if t \<noteq> [] then [Text t] else []
                         | InlineData m d \<Rightarrow>
                             [Text ''DOCUMENT: Master List Image/PDF'', masterContent]
                         | _ \<Rightarrow> []);
                      request =
                        \<lparr> model = ''gemini-2.5-flash'',
                          parts = Instruction CompletenessTemplate filenames # attached,
                          responseSchema = CompletenessTemplate \<rparr>
                  in ([Normalize masterList, Generate request],
                      caught ''Check Failed: ''
                        (decodeResponse env ''No response from AI check.''
                           (generateContent env request)))))))"

fun validateAll :: "FileData list \<Rightarrow> error + unit" where
  \<comment> \<open>\<^verbatim>\<open>datasheets.forEach(ds => validateMimeType(ds))\<close>\<close>
  "validateAll [] = Inr ()"
| "validateAll (ds # rest) =
    (case validateMimeType ds of Inl e \<Rightarrow> Inl e | Inr _ \<Rightarrow> validateAll rest)"

text \<open>
  The loop that attaches the datasheets. \<open>index\<close> counts from zero; \<open>acc\<close> holds the
  parts pushed and \<open>evs\<close> the steps taken so far, both newest first.
\<close>

fun attachDatasheets ::
  "Env \<Rightarrow> nat \<Rightarrow> FileData list \<Rightarrow> Part list \<Rightarrow> Event list
    \<Rightarrow> Event list \<times> (error + Part list)" where
  "attachDatasheets env index [] acc evs = (rev evs, Inr (rev acc))"
| "attachDatasheets env index (ds # rest) acc evs =
    (case getFileContentPart env ds
            (''Datasheet File #'' @ decimal (index + 1) @ '': '' @ name (file' ds)) of
       Inl e \<Rightarrow> (rev (Normalize ds # evs), Inl e)
     | Inr dsContent \<Rightarrow>
         (let pushed =
                (case dsContent of
                   Text t \<Rightarrow>
                     if t \<noteq> [] then [Text t]
                     else [Text (''DOCUMENT (File #'' @ decimal (index + 1) @ ''): Filename: ''
                                 @ name (file' ds)), dsContent]
                 | _ \<Rightarrow>
                     [Text (''DOCUMENT (File #'' @ decimal (index + 1) @ ''): Filename: ''
                            @ name (file' ds)), dsContent])
          in attachDatasheets env (index + 1) rest (rev pushed @ acc) (Normalize ds # evs)))"

definition analyzeDatasheets ::
  "Env \<Rightarrow> FileData \<Rightarrow> FileData list \<Rightarrow> Event list \<times> (error + json)" where
  "analyzeDatasheets env masterList datasheets =
    (if falsy (API_KEY env) then
       ([], Inl (Error ''API Key is missing. Please check your environment configuration.''))
     else
       (case validateMimeType masterList of
          Inl e \<Rightarrow> ([], Inl e)
        | Inr _ \<Rightarrow>
            (case validateAll datasheets of
               Inl e \<Rightarrow> ([], Inl e)
             | Inr _ \<Rightarrow>
                 (let filenames = map (\<lambda>d. name (file' d)) datasheets
                  in case getFileContentPart env masterList ''Master List'' of
                       Inl e \<Rightarrow> ([Normalize masterList], Inl e)
                     | Inr masterContent \<Rightarrow>
                         (let attached =
                                (case masterContent of
                                   Text t \<Rightarrow>
                                     if t \<noteq> [] then [Text t]
                                     else [Text ''DOCUMENT: Master List (Reference)'',
                                           masterContent]
                                 | _ \<Rightarrow>
                                     [Text ''DOCUMENT: Master List (Reference)'',
                                      masterContent])
                          in if length datasheets = 0 then
                               ([Normalize masterList],
                                Inl (Error ''No datasheets provided for analysis.''))
                             else
                               (case attachDatasheets env 0 datasheets
                                       (rev (Instruction AnalysisTemplate filenames # attached))
                                       [Normalize masterList] of
                                  (evs, Inl e) \<Rightarrow> (evs, Inl e)
                                | (evs, Inr allParts) \<Rightarrow>
                                    (let request =
                                           \<lparr> model = ''gemini-2.5-flash'',
                                             parts = allParts,
                                             responseSchema = AnalysisTemplate \<rparr>
                                     in (evs @ [Generate request],
                                         caught ''AI Analysis Failed: ''
                                           (decodeResponse env ''No response from AI.''
                                              (generateContent env request))))))))))"

section \<open>The session state (App.tsx)\<close>

text \<open>
  The two results are stored as the service returned them: the casts to
  \<^verbatim>\<open>CompletenessResult\<close> and \<^verbatim>\<open>AnalysisResult\<close> check nothing at run time.
\<close>

record AppState =
  masterList :: "FileData option"
  datasheets :: "FileData list"
  isAnalyzing :: bool
  isChecking :: bool
  checkResult :: "json option"
  result :: "json option"
  error :: "string option"

definition initialState :: AppState where
  "initialState =
    \<lparr> masterList = None, datasheets = [], isAnalyzing = False, isChecking = False,
      checkResult = None, result = None, error = None \<rparr>"

text \<open>What an upload widget hands to \<^verbatim>\<open>onFileSelect\<close>: \<^verbatim>\<open>FileData | FileData[] | null\<close>.\<close>

datatype Selection = Null | Single FileData | Many "FileData list"

text \<open>
  Each function below is the updater that the handler passes to \<^verbatim>\<open>setState\<close>, applied to
  the state \<open>prev\<close> that React supplies.
\<close>

definition handleDatasheetSelect :: "Selection \<Rightarrow> AppState \<Rightarrow> AppState" where
  "handleDatasheetSelect newFiles prev =
    (case newFiles of
       Null \<Rightarrow> prev
     | Single f \<Rightarrow>
         prev\<lparr> datasheets := datasheets prev @ [f], checkResult := None, result := None \<rparr>
     | Many fs \<Rightarrow>
         prev\<lparr> datasheets := datasheets prev @ fs, checkResult := None, result := None \<rparr>)"

definition removeDatasheet :: "string \<Rightarrow> AppState \<Rightarrow> AppState" where
  "removeDatasheet i prev =
    prev\<lparr> datasheets := filter (\<lambda>f. id' f \<noteq> i) (datasheets prev), checkResult := None \<rparr>"

definition selectMasterList :: "FileData option \<Rightarrow> AppState \<Rightarrow> AppState" where
  \<comment> \<open>The \<^verbatim>\<open>onFileSelect\<close> of the master list's upload card; \<open>None\<close> is the \<^verbatim>\<open>null\<close> that its
      remove button passes.\<close>
  "selectMasterList f prev = prev\<lparr> masterList := f, checkResult := None \<rparr>"

definition clearAll :: "AppState \<Rightarrow> AppState" where
  \<comment> \<open>The \<^verbatim>\<open>onClick\<close> of the Clear All button.\<close>
  "clearAll prev = prev\<lparr> datasheets := [], checkResult := None \<rparr>"

definition reset :: "AppState \<Rightarrow> AppState" where
  "reset prev = initialState"

subsection \<open>What is rendered\<close>








subsection \<open>The completeness check\<close>

definition checkStarted :: "AppState \<Rightarrow> AppState" where
  "checkStarted prev = prev\<lparr> isChecking := True, error := None \<rparr>"

definition checkSucceeded :: "json \<Rightarrow> AppState \<Rightarrow> AppState" where
  "checkSucceeded r prev = prev\<lparr> isChecking := False, checkResult := Some r \<rparr>"

definition checkFailed :: "error \<Rightarrow> AppState \<Rightarrow> AppState" where
  "checkFailed err prev =
    (case err of
       Error message \<Rightarrow>
         prev\<lparr> isChecking := False,
               error := Some ([CHR 0xE6, CHR 0xAA, CHR 0xA2, CHR 0xE6, CHR 0x9F, CHR 0xA5,
                               CHR 0xE5, CHR 0xA4, CHR 0xB1, CHR 0xE6, CHR 0x95, CHR 0x97]
                              @ '' (Check Failed): ''
                              @ (if message \<noteq> [] then message
                                 else ''Please check your API Key or File content.'')) \<rparr>)"

text \<open>
  The handler from its call to the last \<^verbatim>\<open>setState\<close>. It reads the master list and the
  datasheets of the state it was rendered with, \<open>state\<close>; no other update comes between
  its own.
\<close>

definition handleCheckCompleteness :: "Env \<Rightarrow> AppState \<Rightarrow> AppState" where
  "handleCheckCompleteness env state =
    (case masterList state of
       None \<Rightarrow> state
     | Some m \<Rightarrow>
         if length (datasheets state) = 0 then state
         else
           (let filenames = map (\<lambda>d. name (file' d)) (datasheets state)
            in case snd (checkFileCompleteness env m filenames) of
                 Inr r \<Rightarrow> checkSucceeded r (checkStarted state)
               | Inl err \<Rightarrow> checkFailed err (checkStarted state)))"

subsection \<open>The analysis\<close>

definition analyzeStarted :: "AppState \<Rightarrow> AppState" where
  "analyzeStarted prev = prev\<lparr> isAnalyzing := True, error := None \<rparr>"

definition analyzeSucceeded :: "json \<Rightarrow> AppState \<Rightarrow> AppState" where
  "analyzeSucceeded r prev = prev\<lparr> result := Some r, isAnalyzing := False \<rparr>"

definition analyzeFailed :: "error \<Rightarrow> AppState \<Rightarrow> AppState" where
  "analyzeFailed err prev =
    (case err of
       Error message \<Rightarrow>
         prev\<lparr> isAnalyzing := False,
               error := Some (if message \<noteq> [] then message
                              else ''Analysis failed. Please try again.'') \<rparr>)"

definition handleAnalyze :: "Env \<Rightarrow> AppState \<Rightarrow> AppState" where
  "handleAnalyze env state =
    (case masterList state of
       None \<Rightarrow> state
     | Some m \<Rightarrow>
         if length (datasheets state) = 0 then state
         else
           (case snd (analyzeDatasheets env m (datasheets state)) of
              Inr r \<Rightarrow> analyzeSucceeded r (analyzeStarted state)
            | Inl err \<Rightarrow> analyzeFailed err (analyzeStarted state)))"

section \<open>The export (components/AnalysisTable.tsx)\<close>

text \<open>
  The table component receives the analysis result typed. \<^verbatim>\<open>exportCSV\<close> guards most of
  its reads against a missing value (\<^verbatim>\<open>x || ""\<close>, \<^verbatim>\<open>group.mappedParts?.partA\<close>), so those
  fields are optional here; \<open>None\<close> is \<^verbatim>\<open>undefined\<close> or \<^verbatim>\<open>null\<close>.
\<close>

datatype ComplianceLevel = FULLY_COMPLIANT | PARTIAL | NON_COMPLIANT

fun levelText :: "ComplianceLevel \<Rightarrow> string" where
  "levelText FULLY_COMPLIANT = ''Fully Compliant''"
| "levelText PARTIAL = ''Partial / Review Needed''"
| "levelText NON_COMPLIANT = ''Non-Compliant''"

datatype Recommendation = RecB | RecC | RecNone | RecBoth

fun recommendationText :: "Recommendation \<Rightarrow> string" where
  "recommendationText RecB = ''B''"
| "recommendationText RecC = ''C''"
| "recommendationText RecNone = ''None''"
| "recommendationText RecBoth = ''Both''"

record SpecItem =
  sid :: "int option"  \<comment> \<open>\<^verbatim>\<open>SpecItem.id\<close>\<close>
  parameter :: "string option"
  unit' :: "string option"
  valueA :: "string option"
  valueB :: "string option"
  complianceB :: "ComplianceLevel option"
  valueC :: "string option"
  complianceC :: "ComplianceLevel option"
  comment :: "string option"

record MappedParts =
  partA :: "string option"
  partB :: "string option"
  partC :: "string option"

record ComparisonGroup =
  gid :: string  \<comment> \<open>\<^verbatim>\<open>ComparisonGroup.id\<close>\<close>
  rowNumber :: int
  mappedParts :: "MappedParts option"
  summary :: "string option"
  recommendation :: "Recommendation option"
  specs :: "SpecItem list option"

record AnalysisResult =
  groups :: "ComparisonGroup list option"
  missingFiles :: "string list"

datatype ExportOutcome =
    Alert string
  | Download string string  \<comment> \<open>the \<^verbatim>\<open>download\<close> attribute and the text of the blob\<close>

definition orElse :: "string option \<Rightarrow> string \<Rightarrow> string" where
  \<comment> \<open>\<^verbatim>\<open>x || d\<close> for a string that may be missing: the empty string is falsy too.\<close>
  "orElse x d = (case x of None \<Rightarrow> d | Some s \<Rightarrow> if s = [] then d else s)"

definition escapeQuotes :: "string \<Rightarrow> string" where
  \<comment> \<open>\<^verbatim>\<open>s.replace(/"/g, '""')\<close>\<close>
  "escapeQuotes s = concat (map (\<lambda>c. if c = DQ then [DQ, DQ] else [c]) s)"

definition quoted :: "string \<Rightarrow> string" where
  "quoted s = DQ # s @ [DQ]"

definition getGroupLabel :: "nat \<Rightarrow> string" where
  \<comment> \<open>\<^verbatim>\<open>String.fromCharCode(65 + index)\<close>\<close>
  "getGroupLabel index = utf8 ((65 + index) mod 65536)"

definition BOM :: string where
  \<comment> \<open>The code unit U+FEFF, as the blob's UTF-8 encoding writes it.\<close>
  "BOM = [CHR 0xEF, CHR 0xBB, CHR 0xBF]"

definition specRow :: "SpecItem \<Rightarrow> string" where
  "specRow s =
    (let param = escapeQuotes (orElse (parameter s) []);
         unit = escapeQuotes (orElse (unit' s) []);
         valA = escapeQuotes (orElse (valueA s) []);
         valB = escapeQuotes (orElse (valueB s) []);
         compB = (case complianceB s of None \<Rightarrow> [] | Some l \<Rightarrow> levelText l);
         valC = escapeQuotes (orElse (valueC s) []);
         compC = (case complianceC s of None \<Rightarrow> [] | Some l \<Rightarrow> levelText l);
         comment = escapeQuotes (orElse (comment s) [])
     in join '',''
          [case sid s of None \<Rightarrow> [] | Some n \<Rightarrow> if n = 0 then [] else showInt n,
           quoted param,
           quoted unit,
           quoted valA,
           quoted valB,
           quoted compB,
           quoted valC,
           quoted compC,
           quoted comment])"

definition headers :: "string \<Rightarrow> string \<Rightarrow> string \<Rightarrow> string \<Rightarrow> string list" where
  "headers groupLabel a b c =
    [''ID'',
     ''Parameter'',
     ''Unit'',
     ''Spec '' @ groupLabel @ '' ('' @ escapeQuotes a @ '')'',
     ''Spec '' @ groupLabel @ ''-1'' @ '' ('' @ escapeQuotes b @ '')'',
     groupLabel @ ''-1'' @ '' Result'',
     ''Spec '' @ groupLabel @ ''-2'' @ '' ('' @ escapeQuotes c @ '')'',
     groupLabel @ ''-2'' @ '' Result'',
     ''Comment'']"

definition groupRows :: "nat \<Rightarrow> ComparisonGroup \<Rightarrow> string list" where
  \<comment> \<open>What one round of \<^verbatim>\<open>result.groups.forEach\<close> pushes on \<^verbatim>\<open>csvRows\<close>.\<close>
  "groupRows index group' =
    (let groupLabel = getGroupLabel index;
         a = orElse (case mappedParts group' of None \<Rightarrow> None | Some m \<Rightarrow> partA m) ''Part A'';
         b = orElse (case mappedParts group' of None \<Rightarrow> None | Some m \<Rightarrow> partB m) ''Part B'';
         c = orElse (case mappedParts group' of None \<Rightarrow> None | Some m \<Rightarrow> partC m) ''Part C'';
         summaryText = escapeQuotes (orElse (summary group') []);
         recommendationText' =
           (case recommendation group' of None \<Rightarrow> ''-'' | Some r \<Rightarrow> recommendationText r)
     in [quoted (''GROUP '' @ groupLabel @ '': '' @ escapeQuotes a @ '' vs Substitutes''),
         quoted (''Summary: '' @ summaryText),
         quoted (''Recommendation: '' @ recommendationText'),
         join '','' (headers groupLabel a b c)]
        @ (case specs group' of None \<Rightarrow> [] | Some ss \<Rightarrow> map specRow ss)
        @ [[], []])"

definition csvRows :: "ComparisonGroup list \<Rightarrow> string list" where
  "csvRows gs = concat (map (\<lambda>(index, g). groupRows index g) (enumerate 0 gs))"

definition exportCSV :: "AnalysisResult option \<Rightarrow> ExportOutcome" where
  "exportCSV res =
    (let noData =
           Alert ([CHR 0xE6, CHR 0xB2, CHR 0x92, CHR 0xE6, CHR 0x9C, CHR 0x89, CHR 0xE8, CHR 0xB3,
                   CHR 0x87, CHR 0xE6, CHR 0x96, CHR 0x99, CHR 0xE5, CHR 0x8F, CHR 0xAF, CHR 0xE4,
                   CHR 0xBB, CHR 0xA5, CHR 0xE5, CHR 0x8C, CHR 0xAF, CHR 0xE5, CHR 0x87, CHR 0xBA]
                  @ '' (No data to export)'')
     in case res of
          None \<Rightarrow> noData
        | Some r \<Rightarrow>
            (case groups r of
               None \<Rightarrow> noData
             | Some gs \<Rightarrow>
                 if length gs = 0 then noData
                 else Download ''Substitution_Analysis_Report.csv''
                        (BOM @ join [LF] (csvRows gs))))"

subsection \<open>Reading a line of CSV\<close>

text \<open>
  The reader that the export is judged by: the fields of one record as RFC 4180 delimits
  them. A field that begins with a quotation mark runs to the next quotation mark that is
  not doubled, and a doubled one stands for one; any other field runs to the next comma.
\<close>

datatype CsvMode = FieldStart | Unquoted | Quoted

fun csvSplit :: "CsvMode \<Rightarrow> string \<Rightarrow> string \<Rightarrow> string list" where
  "csvSplit m acc [] = [rev acc]"
| "csvSplit FieldStart acc (c # cs) =
    (if c = DQ then csvSplit Quoted acc cs
     else if c = CHR '','' then rev acc # csvSplit FieldStart [] cs
     else csvSplit Unquoted (c # acc) cs)"
| "csvSplit Unquoted acc (c # cs) =
    (if c = CHR '','' then rev acc # csvSplit FieldStart [] cs
     else csvSplit Unquoted (c # acc) cs)"
| "csvSplit Quoted acc (c # cs) =
    (if c = DQ then
       (case cs of
          [] \<Rightarrow> [rev acc]
        | d # ds \<Rightarrow>
            if d = DQ then csvSplit Quoted (DQ # acc) ds else csvSplit Unquoted acc cs)
     else csvSplit Quoted (c # acc) cs)"

definition csvFields :: "string \<Rightarrow> string list" where
  "csvFields line = csvSplit FieldStart [] line"

section \<open>Reading the results\<close>

text \<open>The outbound calls among the steps of a service call.\<close>

fun isGenerate :: "Event \<Rightarrow> bool" where
  "isGenerate (Generate req) = True"
| "isGenerate (Normalize f) = False"

definition outboundCalls :: "Event list \<Rightarrow> nat" where
  "outboundCalls evs = length (filter isGenerate evs)"

text \<open>
  A \<^verbatim>\<open>CompletenessResult\<close> as the decoded object holds it: the \<^verbatim>\<open>allProvided\<close> flag, and the
  part statuses of all rows, the original of a row before its substitutes.
\<close>

definition allProvided :: "json \<Rightarrow> bool" where
  "allProvided r = (member ''allProvided'' r = Some (JBool True))"

definition rowParts :: "json \<Rightarrow> json list" where
  "rowParts row =
    (case member ''original'' row of None \<Rightarrow> [] | Some p \<Rightarrow> [p])
    @ (case member ''substitutes'' row of Some (JArray ps) \<Rightarrow> ps | _ \<Rightarrow> [])"

definition partStatuses :: "json \<Rightarrow> json list" where
  "partStatuses r =
    (case member ''groupedRows'' r of
       Some (JArray rows) \<Rightarrow> concat (map rowParts rows)
     | _ \<Rightarrow> [])"

definition isProvided :: "json \<Rightarrow> bool" where
  "isProvided p = (member ''status'' p = Some (JString ''Provided''))"

definition everyPartProvided :: "json \<Rightarrow> bool" where
  "everyPartProvided r = list_all isProvided (partStatuses r)"

text \<open>A response text wrapped in a \<^verbatim>\<open>```json\<close> fence: a leading and a trailing fence line.\<close>

definition fenced :: "string \<Rightarrow> string" where
  "fenced t = ''```json'' @ [LF] @ t @ [LF] @ ''```''"

text \<open>
  The values that the cells of a data row stand for: the identifier as \<^verbatim>\<open>s.id || ""\<close>
  prints it, and a compliance level or the empty string.
\<close>

definition idText :: "SpecItem \<Rightarrow> string" where
  "idText s = (case sid s of None \<Rightarrow> [] | Some n \<Rightarrow> if n = 0 then [] else showInt n)"

definition levelOrEmpty :: "ComplianceLevel option \<Rightarrow> string" where
  "levelOrEmpty l = (case l of None \<Rightarrow> [] | Some v \<Rightarrow> levelText v)"

section \<open>Sample inputs\<close>

definition pdfMaster :: FileData where
  "pdfMaster =
    \<lparr> id' = ''a1b2c3d4e'', file' = \<lparr> name = ''master.pdf'', type = ''application/pdf'' \<rparr>,
      base64 = ''JVBERi0xLjQ='', type' = PDF \<rparr>"

definition xlsFile :: File where
  "xlsFile = \<lparr> name = ''parts.xls'', type = ''application/vnd.ms-excel'' \<rparr>"

definition docxData :: FileData where
  "docxData =
    \<lparr> id' = ''z9y8x7w6v'',
      file' = \<lparr> name = ''report.docx'',
                type = ''application/vnd.openxmlformats-officedocument.wordprocessingml.document'' \<rparr>,
      base64 = ''UEsDBBQABgAIAAAAIQ=='',
      type' = ''application/vnd.openxmlformats-officedocument.wordprocessingml.document'' \<rparr>"

definition datasheetM1 :: FileData where
  "datasheetM1 =
    \<lparr> id' = ''q1w2e3r4t'', file' = \<lparr> name = ''M1_datasheet.pdf'', type = ''application/pdf'' \<rparr>,
      base64 = ''JVBERi0xLjc='', type' = PDF \<rparr>"

text \<open>
  Two payloads. The first is the base64 encoding of the fourteen characters
  \<^verbatim>\<open>not a workbook\<close>; the library takes a payload that has no signature of a workbook
  format as delimited text, so it reads this one as a workbook with the single sheet
  \<^verbatim>\<open>Sheet1\<close> whose only cell holds the text. The second is the base64 encoding of the
  twelve bytes \<^verbatim>\<open>D0 CF 11 E0 A1 B1 1A E1 00 00 00 00\<close>: the signature of a compound file
  with nothing after it, on which \<^verbatim>\<open>XLSX.read\<close> throws.
\<close>

definition plainTextPayload :: string where
  "plainTextPayload = ''bm90IGEgd29ya2Jvb2s=''"

definition truncatedPayload :: string where
  "truncatedPayload = ''0M8R4KGxGuEAAAAA''"

definition plainTextWorkbook :: Workbook where
  "plainTextWorkbook =
    \<lparr> SheetNames = [''Sheet1''], Sheets = [(''Sheet1'', [[''not a workbook'']])] \<rparr>"

text \<open>
  An environment with a key, a spreadsheet library, and a remote service that answers
  every request with the given text. The library reads the first payload and throws on
  the second; these are the only two payloads put to it below. A sheet whose cells hold
  no comma, quotation mark or line break is written out with commas between the cells of
  a row and line feeds between the rows, and \<^verbatim>\<open>undefined\<close> as the empty text.
\<close>

definition answering :: "string \<Rightarrow> Env" where
  "answering response =
    \<lparr> API_KEY = Some ''AIzaSyExample'',
      XLSX_read = (\<lambda>payload. if payload = plainTextPayload then Some plainTextWorkbook else None),
      sheet_to_csv =
        (\<lambda>sheet. case sheet of
                   None \<Rightarrow> Some []
                 | Some rows \<Rightarrow> Some (join [LF] (map (join '','') rows))),
      generateContent = (\<lambda>request. Result (Some response)),
      syntaxErrorMessage = (\<lambda>text. ''Unexpected token'') \<rparr>"

definition inconsistentResponse :: string where
  "inconsistentResponse =
    ''{\"groupedRows\":[{\"original\":{\"partName\":\"M1\",\"status\":\"Provided\",''
    @ ''\"matchedFilename\":\"M1_datasheet.pdf\"},''
    @ ''\"substitutes\":[{\"partName\":\"M1-SUB\",\"status\":\"Missing\"}]}],''
    @ ''\"allProvided\":true,\"message\":\"All files provided.\"}''"

definition inconsistentResult :: json where
  \<comment> \<open>The object that \<open>inconsistentResponse\<close> denotes.\<close>
  "inconsistentResult =
    JObject
      [(''groupedRows'',
        JArray
          [JObject
             [(''original'',
               JObject [(''partName'', JString ''M1''), (''status'', JString ''Provided''),
                        (''matchedFilename'', JString ''M1_datasheet.pdf'')]),
              (''substitutes'',
               JArray [JObject [(''partName'', JString ''M1-SUB''),
                                (''status'', JString ''Missing'')]])]]),
       (''allProvided'', JBool True),
       (''message'', JString ''All files provided.'')]"

definition xlsxFile :: File where
  "xlsxFile = \<lparr> name = ''master.xlsx'', type = SPREADSHEET \<rparr>"

definition storedAnalysis :: json where
  "storedAnalysis = JObject [(''groups'', JArray []), (''missingFiles'', JArray [])]"

definition storedCheck :: json where
  "storedCheck =
    JObject [(''groupedRows'', JArray []), (''allProvided'', JBool True),
             (''message'', JString ''ok'')]"


definition analysedState :: AppState where
  "analysedState =
    \<lparr> masterList = Some pdfMaster, datasheets = [datasheetM1], isAnalyzing = False,
      isChecking = False, checkResult = Some storedCheck, result = Some storedAnalysis,
      error = None \<rparr>"

definition commaPartResult :: AnalysisResult where
  "commaPartResult =
    \<lparr> groups =
        Some [\<lparr> gid = ''g1'', rowNumber = 1,
                mappedParts =
                  Some \<lparr> partA = Some ''LM317, TO-220'', partB = Some ''LM317T'',
                         partC = Some ''LM317BT'' \<rparr>,
                summary = Some ''Both substitutes match.'',
                recommendation = Some RecBoth,
                specs =
                  Some [\<lparr> sid = Some 1, parameter = Some ''Output Voltage'', unit' = Some ''V'',
                          valueA = Some ''1.2 to 37'', valueB = Some ''1.2 to 37'',
                          complianceB = Some FULLY_COMPLIANT, valueC = Some ''1.2 to 37'',
                          complianceC = Some FULLY_COMPLIANT,
                          comment = Some ''Contains \"quotes\"'' \<rparr>] \<rparr>],
      missingFiles = [] \<rparr>"

section \<open>Evaluation of the string predicates\<close>

lemmas string_tests = includes'_def endsWith_def startsWith_def sublist_code(3) suffix_to_prefix

section \<open>Ingestion\<close>

text \<open>
  C6, as the code has it: the three tests of \<^verbatim>\<open>processFile\<close> are consecutive statements,
  so the last one that matches decides. The media kind is SPREADSHEET when the browser's
  type contains "sheet" or the name ends in ".xlsx"; otherwise JPEG when the type
  contains "jpeg" or "jpg"; otherwise PNG when it contains "png"; otherwise PDF.
\<close>

theorem processFile_last_match_wins:
  "type' (processFile rnd b64 f) =
    (if includes' (type f) ''sheet'' \<or> endsWith (name f) ''.xlsx'' then SPREADSHEET
     else if includes' (type f) ''jpeg'' \<or> includes' (type f) ''jpg'' then JPEG
     else if includes' (type f) ''png'' then PNG
     else PDF)"
  by (simp add: processFile_def mimeTypeOf_def)

text \<open>
  C6 as stated fails: a file whose browser type contains "png" and whose name ends in
  ".xlsx" is classified SPREADSHEET, not PNG.
\<close>

theorem processFile_png_xlsx_is_spreadsheet:
  "includes' (type \<lparr> name = ''parts.xlsx'', type = ''image/png'' \<rparr>) ''png''
   \<and> type' (processFile ''k3j2h1g0f'' ''UEsDBA=='' \<lparr> name = ''parts.xlsx'', type = ''image/png'' \<rparr>)
       = SPREADSHEET
   \<and> type' (processFile ''k3j2h1g0f'' ''UEsDBA=='' \<lparr> name = ''parts.xlsx'', type = ''image/png'' \<rparr>)
       \<noteq> PNG"
  by (simp add: processFile_def mimeTypeOf_def string_tests)

text \<open>
  C10: whatever the file, \<^verbatim>\<open>processFile\<close> gives it one of four media kinds, and
  \<^verbatim>\<open>validateMimeType\<close> accepts each of them, so its error branch is never taken on a file
  that came through the upload widget.
\<close>

theorem processFile_type_always_supported:
  "type' (processFile rnd b64 f) \<in> {PDF, PNG, JPEG, SPREADSHEET}
   \<and> validateMimeType (processFile rnd b64 f) = Inr ()"
  by (simp add: processFile_def mimeTypeOf_def validateMimeType_def supportedTypes_def)

section \<open>Validation\<close>

lemma validateMimeType_cases:
  "validateMimeType fd =
    (if type' fd \<in> set supportedTypes then Inr ()
     else Inl (Error (''Unsupported file type: '' @ type' fd
                      @ ''. Please upload PDF, Images, or Excel files.'')))"
  by (simp add: validateMimeType_def)

lemma validateAll_Inl:
  "validateAll ds = Inl e \<Longrightarrow>
   \<exists>f \<in> set ds. type' f \<notin> set supportedTypes \<and> validateMimeType f = Inl e"
  by (induction ds) (auto simp: validateMimeType_cases split: if_splits sum.splits)

lemma validateAll_Inr:
  "validateAll ds = Inr u \<Longrightarrow> f \<in> set ds \<Longrightarrow> type' f \<in> set supportedTypes"
  by (induction ds) (auto simp: validateMimeType_cases split: if_splits sum.splits)

lemma answering_has_key: "\<not> falsy (API_KEY (answering response))"
  by (simp add: answering_def falsy_def)

lemma docxData_unsupported: "type' docxData \<notin> set supportedTypes"
  by (simp add: docxData_def supportedTypes_def)

text \<open>
  C5, as the code has it: a file whose media kind is not in \<^verbatim>\<open>supportedTypes\<close> is rejected
  with an error whose message names the rejected kind. Both service calls validate
  before they normalize anything: with a key configured, the completeness check of such
  a master list and the analysis of a set that holds such a file fail with that error,
  having normalized no file and made no outbound call.
\<close>

theorem unsupported_type_rejected_before_normalization:
  assumes key: "\<not> falsy (API_KEY env)"
    and mem: "fd \<in> set (master # ds)"
    and bad: "type' fd \<notin> set supportedTypes"
  shows "validateMimeType fd =
           Inl (Error (''Unsupported file type: '' @ type' fd
                       @ ''. Please upload PDF, Images, or Excel files.''))
       \<and> checkFileCompleteness env fd filenames =
           ([], Inl (Error (''Unsupported file type: '' @ type' fd
                            @ ''. Please upload PDF, Images, or Excel files.'')))
       \<and> fst (analyzeDatasheets env master ds) = []
       \<and> (\<exists>f \<in> set (master # ds). type' f \<notin> set supportedTypes
            \<and> snd (analyzeDatasheets env master ds) =
                Inl (Error (''Unsupported file type: '' @ type' f
                            @ ''. Please upload PDF, Images, or Excel files.'')))"
proof -
  have v: "validateMimeType fd =
             Inl (Error (''Unsupported file type: '' @ type' fd
                         @ ''. Please upload PDF, Images, or Excel files.''))"
    using bad by (simp add: validateMimeType_cases)
  have c: "checkFileCompleteness env fd filenames =
             ([], Inl (Error (''Unsupported file type: '' @ type' fd
                              @ ''. Please upload PDF, Images, or Excel files.'')))"
    using key v by (simp add: checkFileCompleteness_def)
  have a: "fst (analyzeDatasheets env master ds) = []
       \<and> (\<exists>f \<in> set (master # ds). type' f \<notin> set supportedTypes
            \<and> snd (analyzeDatasheets env master ds) =
                Inl (Error (''Unsupported file type: '' @ type' f
                            @ ''. Please upload PDF, Images, or Excel files.'')))"
  proof (cases "type' master \<in> set supportedTypes")
    case False
    then show ?thesis
      using key by (simp add: analyzeDatasheets_def validateMimeType_cases)
  next
    case True
    with mem bad have "fd \<in> set ds"
      by auto
    with bad obtain e where e: "validateAll ds = Inl e"
      using validateAll_Inr [of ds _ fd] by (cases "validateAll ds") auto
    from validateAll_Inl [OF e] obtain f where f: "f \<in> set ds"
      "type' f \<notin> set supportedTypes" "validateMimeType f = Inl e"
      by blast
    then have "e = Error (''Unsupported file type: '' @ type' f
                          @ ''. Please upload PDF, Images, or Excel files.'')"
      by (simp add: validateMimeType_cases)
    with f show ?thesis
      using key True e by (auto simp: analyzeDatasheets_def validateMimeType_cases)
  qed
  show ?thesis
    using v c a by blast
qed

theorem unsupported_type_rejected_witness:
  "validateMimeType docxData =
     Inl (Error (''Unsupported file type: '' @ type' docxData
                 @ ''. Please upload PDF, Images, or Excel files.''))
   \<and> checkFileCompleteness (answering ''{}'') docxData [''M1_datasheet.pdf''] =
       ([], Inl (Error (''Unsupported file type: '' @ type' docxData
                        @ ''. Please upload PDF, Images, or Excel files.'')))
   \<and> fst (analyzeDatasheets (answering ''{}'') pdfMaster [datasheetM1, docxData]) = []
   \<and> (\<exists>f \<in> set (pdfMaster # [datasheetM1, docxData]). type' f \<notin> set supportedTypes
        \<and> snd (analyzeDatasheets (answering ''{}'') pdfMaster [datasheetM1, docxData]) =
            Inl (Error (''Unsupported file type: '' @ type' f
                        @ ''. Please upload PDF, Images, or Excel files.'')))"
proof -
  have mem: "docxData \<in> set (pdfMaster # [datasheetM1, docxData])"
    by simp
  show ?thesis
    by (rule unsupported_type_rejected_before_normalization
        [OF answering_has_key mem docxData_unsupported])
qed

text \<open>
  C5 as stated fails: the message names the rejected media kind, not the rejected file.
  For a file \<^verbatim>\<open>report.docx\<close> the file name does not occur in it.
\<close>

theorem unsupported_message_omits_file_name:
  "validateMimeType docxData =
     Inl (Error (''Unsupported file type: ''
                 @ ''application/vnd.openxmlformats-officedocument.wordprocessingml.document''
                 @ ''. Please upload PDF, Images, or Excel files.''))
   \<and> name (file' docxData) = ''report.docx''
   \<and> \<not> includes' (''Unsupported file type: ''
                   @ ''application/vnd.openxmlformats-officedocument.wordprocessingml.document''
                   @ ''. Please upload PDF, Images, or Excel files.'') ''report.docx''"
  by code_simp

section \<open>Normalization\<close>

lemma isExcel_processFile:
  "isExcel (processFile rnd b64 f) \<longleftrightarrow>
   type' (processFile rnd b64 f) = SPREADSHEET \<or> endsWith (name f) ''.xls''"
  by (auto simp: isExcel_def processFile_def mimeTypeOf_def string_tests)

lemma getFileContentPart_read:
  "isExcel fd \<Longrightarrow> XLSX_read env (base64 fd) = Some workbook \<Longrightarrow>
   sheet_to_csv env (sheetNamed workbook (firstSheetName workbook)) = Some csv \<Longrightarrow>
   getFileContentPart env fd label =
     Inr (Text (''DOCUMENT_CONTENT ('' @ label @ ''):'' @ [LF] @ csv @ [LF]
                @ ''[End of CSV content]''))"
  by (simp add: getFileContentPart_def)

lemma getFileContentPart_unreadable:
  "isExcel fd \<Longrightarrow> XLSX_read env (base64 fd) = None \<Longrightarrow>
   getFileContentPart env fd label =
     Inl (Error (''Failed to read Excel file: '' @ name (file' fd)
                 @ ''. Please ensure it is a valid .xlsx file.''))"
  by (simp add: getFileContentPart_def)

lemma getFileContentPart_unrendered:
  "isExcel fd \<Longrightarrow> XLSX_read env (base64 fd) = Some workbook \<Longrightarrow>
   sheet_to_csv env (sheetNamed workbook (firstSheetName workbook)) = None \<Longrightarrow>
   getFileContentPart env fd label =
     Inl (Error (''Failed to read Excel file: '' @ name (file' fd)
                 @ ''. Please ensure it is a valid .xlsx file.''))"
  by (simp add: getFileContentPart_def)

lemma getFileContentPart_binary:
  "\<not> isExcel fd \<Longrightarrow>
   getFileContentPart env fd label = Inr (InlineData (type' fd) (base64 fd))"
  by (simp add: getFileContentPart_def)

text \<open>
  The sheet that is written out is the one under the first name of \<^verbatim>\<open>SheetNames\<close>,
  whatever else the workbook holds; a workbook without sheets gives \<^verbatim>\<open>undefined\<close>.
\<close>

lemma first_sheet_by_position:
  "SheetNames workbook = n # ns \<Longrightarrow>
   sheetNamed workbook (firstSheetName workbook) = map_of (Sheets workbook) n"
  by (simp add: firstSheetName_def sheetNamed_def)

lemma no_sheet_undefined:
  "SheetNames workbook = [] \<Longrightarrow> sheetNamed workbook (firstSheetName workbook) = None"
  by (simp add: firstSheetName_def sheetNamed_def)

lemma later_sheets_ignored:
  "sheetNamed \<lparr> SheetNames = [''Parts'', ''Notes''],
                 Sheets = [(''Notes'', [[''draft'']]), (''Parts'', [[''M1'', ''M1-SUB'']])] \<rparr>
     (firstSheetName \<lparr> SheetNames = [''Parts'', ''Notes''],
                       Sheets = [(''Notes'', [[''draft'']]), (''Parts'', [[''M1'', ''M1-SUB'']])] \<rparr>)
   = Some [[''M1'', ''M1-SUB'']]"
  by (simp add: firstSheetName_def sheetNamed_def)

lemma markers_present:
  "includes' (''DOCUMENT_CONTENT ('' @ label @ ''):'' @ [LF] @ csv @ [LF]
              @ ''[End of CSV content]'') ''DOCUMENT_CONTENT (''
   \<and> includes' (''DOCUMENT_CONTENT ('' @ label @ ''):'' @ [LF] @ csv @ [LF]
                @ ''[End of CSV content]'') ''[End of CSV content]''"
proof -
  have "sublist ''DOCUMENT_CONTENT (''
          (''DOCUMENT_CONTENT ('' @ (label @ ''):'' @ [LF] @ csv @ [LF]
                                     @ ''[End of CSV content]''))"
    by (rule sublist_append_rightI)
  moreover have "sublist ''[End of CSV content]''
          ((''DOCUMENT_CONTENT ('' @ label @ ''):'' @ [LF] @ csv @ [LF])
           @ ''[End of CSV content]'')"
    by (rule sublist_append_leftI)
  ultimately show ?thesis
    by (simp add: includes'_def)
qed

text \<open>
  C3, as the code has it. \<^verbatim>\<open>getFileContentPart\<close> treats an ingested file as a spreadsheet
  when its media kind is SPREADSHEET or its name ends in ".xls". For such a file, when
  the library reads the payload as a workbook and writes out the sheet that the workbook
  holds under the first of its sheet names, the result is a text part: that sheet's CSV
  between the markers \<^verbatim>\<open>DOCUMENT_CONTENT (<label>):\<close> and \<^verbatim>\<open>[End of CSV content]\<close>; when
  the library throws on the payload, the call fails with an error that names the file.
  Every other ingested file, of kind PDF, PNG or JPEG, becomes a binary part that carries
  the file's media kind and payload unchanged.
\<close>

theorem normalization_by_kind:
  "(type' (processFile rnd b64 f) = SPREADSHEET \<or> endsWith (name f) ''.xls'' \<longrightarrow>
      (XLSX_read env b64 = Some workbook \<and> SheetNames workbook = n # ns
         \<and> sheet_to_csv env (map_of (Sheets workbook) n) = Some csv \<longrightarrow>
         getFileContentPart env (processFile rnd b64 f) label =
           Inr (Text (''DOCUMENT_CONTENT ('' @ label @ ''):'' @ [LF] @ csv @ [LF]
                      @ ''[End of CSV content]''))
         \<and> includes' (''DOCUMENT_CONTENT ('' @ label @ ''):'' @ [LF] @ csv @ [LF]
                      @ ''[End of CSV content]'') ''DOCUMENT_CONTENT (''
         \<and> includes' (''DOCUMENT_CONTENT ('' @ label @ ''):'' @ [LF] @ csv @ [LF]
                      @ ''[End of CSV content]'') ''[End of CSV content]'')
      \<and> (XLSX_read env b64 = None \<longrightarrow>
           getFileContentPart env (processFile rnd b64 f) label =
             Inl (Error (''Failed to read Excel file: '' @ name f
                         @ ''. Please ensure it is a valid .xlsx file.''))))
   \<and> (type' (processFile rnd b64 f) \<in> {PDF, PNG, JPEG} \<and> \<not> endsWith (name f) ''.xls'' \<longrightarrow>
        getFileContentPart env (processFile rnd b64 f) label =
          Inr (InlineData (type' (processFile rnd b64 f)) b64))"
proof -
  have sel: "base64 (processFile rnd b64 f) = b64" "name (file' (processFile rnd b64 f)) = name f"
    by (simp_all add: processFile_def)
  have excel: "getFileContentPart env (processFile rnd b64 f) label =
           Inr (Text (''DOCUMENT_CONTENT ('' @ label @ ''):'' @ [LF] @ csv @ [LF]
                      @ ''[End of CSV content]''))"
    if "type' (processFile rnd b64 f) = SPREADSHEET \<or> endsWith (name f) ''.xls''"
      and "XLSX_read env b64 = Some workbook" and "SheetNames workbook = n # ns"
      and "sheet_to_csv env (map_of (Sheets workbook) n) = Some csv"
    using that getFileContentPart_read [of "processFile rnd b64 f" env workbook csv label]
      first_sheet_by_position [of workbook n ns]
    by (simp add: isExcel_processFile sel)
  have unreadable: "getFileContentPart env (processFile rnd b64 f) label =
             Inl (Error (''Failed to read Excel file: '' @ name f
                         @ ''. Please ensure it is a valid .xlsx file.''))"
    if "type' (processFile rnd b64 f) = SPREADSHEET \<or> endsWith (name f) ''.xls''"
      and "XLSX_read env b64 = None"
    using that getFileContentPart_unreadable [of "processFile rnd b64 f" env label]
    by (simp add: isExcel_processFile sel)
  have binary: "getFileContentPart env (processFile rnd b64 f) label =
          Inr (InlineData (type' (processFile rnd b64 f)) b64)"
    if "type' (processFile rnd b64 f) \<in> {PDF, PNG, JPEG}" and "\<not> endsWith (name f) ''.xls''"
  proof -
    from that have "\<not> isExcel (processFile rnd b64 f)"
      by (auto simp: isExcel_processFile)
    then show ?thesis
      using getFileContentPart_binary [of "processFile rnd b64 f" env label] by (simp add: sel)
  qed
  show ?thesis
    using excel unreadable binary markers_present [of label csv] by blast
qed

lemma xlsFile_kind:
  "type' (processFile ''k3j2h1g0f'' plainTextPayload xlsFile) = PDF
   \<and> endsWith (name xlsFile) ''.xls''"
  by (simp add: processFile_def mimeTypeOf_def xlsFile_def string_tests)

lemma xlsxFile_kind:
  "type' (processFile ''m5n6b7v8c'' truncatedPayload xlsxFile) = SPREADSHEET"
  by (simp add: processFile_def mimeTypeOf_def xlsxFile_def string_tests)

lemma pdfFile_kind:
  "type' (processFile ''a1b2c3d4e'' ''JVBERi0xLjQ='' (file' pdfMaster)) = PDF
   \<and> \<not> endsWith (name (file' pdfMaster)) ''.xls''"
  by (simp add: processFile_def mimeTypeOf_def pdfMaster_def string_tests)

lemma answering_reads:
  "XLSX_read (answering response) plainTextPayload = Some plainTextWorkbook
   \<and> SheetNames plainTextWorkbook = [''Sheet1'']
   \<and> sheet_to_csv (answering response) (map_of (Sheets plainTextWorkbook) ''Sheet1'')
       = Some ''not a workbook''
   \<and> XLSX_read (answering response) truncatedPayload = None"
  by (simp add: answering_def plainTextWorkbook_def plainTextPayload_def truncatedPayload_def
      join_def)

theorem normalization_by_kind_witness:
  "getFileContentPart (answering ''{}'') (processFile ''k3j2h1g0f'' plainTextPayload xlsFile)
       ''Master List'' =
     Inr (Text (''DOCUMENT_CONTENT (Master List):'' @ [LF] @ ''not a workbook'' @ [LF]
                @ ''[End of CSV content]''))
   \<and> getFileContentPart (answering ''{}'')
         (processFile ''m5n6b7v8c'' truncatedPayload xlsxFile) ''Master List'' =
       Inl (Error ''Failed to read Excel file: master.xlsx. Please ensure it is a valid .xlsx file.'')
   \<and> getFileContentPart (answering ''{}'')
         (processFile ''a1b2c3d4e'' ''JVBERi0xLjQ='' (file' pdfMaster)) ''Master List'' =
       Inr (InlineData PDF ''JVBERi0xLjQ='')"
  using normalization_by_kind [of "''k3j2h1g0f''" plainTextPayload xlsFile "answering ''{}''"
      plainTextWorkbook "''Sheet1''" "[]" "''not a workbook''" "''Master List''"]
    normalization_by_kind [of "''m5n6b7v8c''" truncatedPayload xlsxFile
      "answering ''{}''" _ _ _ _ "''Master List''"]
    normalization_by_kind [of "''a1b2c3d4e''" "''JVBERi0xLjQ=''" "file' pdfMaster"
      "answering ''{}''" _ _ _ _ "''Master List''"]
    xlsFile_kind xlsxFile_kind pdfFile_kind answering_reads [of "''{}''"]
  by (simp add: xlsxFile_def)

text \<open>
  C3 as stated fails on both counts. A file \<^verbatim>\<open>parts.xls\<close> that the browser reports as
  \<^verbatim>\<open>application/vnd.ms-excel\<close> is ingested with kind PDF and is handed to the spreadsheet
  library all the same: with a payload that the library reads it normalizes to a text
  part, and with one on which the library throws the call fails; in neither case is the
  result a binary part. A file of kind SPREADSHEET with a payload on which the library
  throws does not normalize to a text part: the call fails.
\<close>

theorem pdf_kind_not_normalized_as_binary:
  "type' (processFile ''k3j2h1g0f'' plainTextPayload xlsFile) = PDF
   \<and> getFileContentPart (answering ''{}'') (processFile ''k3j2h1g0f'' plainTextPayload xlsFile)
         ''Master List'' =
       Inr (Text (''DOCUMENT_CONTENT (Master List):'' @ [LF] @ ''not a workbook'' @ [LF]
                  @ ''[End of CSV content]''))
   \<and> type' (processFile ''k3j2h1g0f'' truncatedPayload xlsFile) = PDF
   \<and> getFileContentPart (answering ''{}'') (processFile ''k3j2h1g0f'' truncatedPayload xlsFile)
         ''Master List'' =
       Inl (Error ''Failed to read Excel file: parts.xls. Please ensure it is a valid .xlsx file.'')
   \<and> type' (processFile ''m5n6b7v8c'' truncatedPayload xlsxFile) = SPREADSHEET
   \<and> getFileContentPart (answering ''{}'')
         (processFile ''m5n6b7v8c'' truncatedPayload xlsxFile) ''Master List'' =
       Inl (Error ''Failed to read Excel file: master.xlsx. Please ensure it is a valid .xlsx file.'')"
  by code_simp

section \<open>The shape of a JSON text\<close>

text \<open>
  What each parser consumes: a string literal ends at its closing quotation mark, a number
  begins with a minus sign or a digit and ends with a digit, an array ends at its closing
  bracket and an object at its closing brace.
\<close>

lemma skipWs_suffix: "suffix (skipWs s) s"
  by (simp add: skipWs_def suffix_dropWhile)

lemma parseChars_step:
  assumes "parseChars acc (c # cs) = Some (t, r)"
  shows "(c = DQ \<and> r = cs) \<or> (\<exists>acc' ys. suffix ys cs \<and> parseChars acc' ys = Some (t, r))"
proof (cases "c = DQ")
  case True
  with assms show ?thesis by simp
next
  case notq: False
  show ?thesis
  proof (cases "c = BSL")
    case False
    with notq assms have "parseChars (c # acc) cs = Some (t, r)"
      by (simp split: if_splits)
    then show ?thesis by blast
  next
    case True
    with notq assms obtain e es where cs: "cs = e # es"
      by (cases cs) auto
    show ?thesis
    proof (cases "e = CHR ''u''")
      case False
      with True notq assms cs obtain x where "parseChars (x # acc) es = Some (t, r)"
        by (auto split: option.splits)
      moreover have "suffix es cs" using cs by (simp add: suffix_ConsI)
      ultimately show ?thesis by blast
    next
      case u: True
      with True notq assms cs obtain h1 h2 h3 h4 rest where es: "es = h1 # h2 # h3 # h4 # rest"
        by (auto split: list.splits)
      with True notq u assms cs obtain acc' where "parseChars acc' rest = Some (t, r)"
        by (auto split: option.splits)
      moreover have "suffix rest cs" using cs es by (simp add: suffix_ConsI)
      ultimately show ?thesis by blast
    qed
  qed
qed

lemma parseChars_consumes: "parseChars acc s = Some (t, r) \<Longrightarrow> suffix (DQ # r) s"
proof (induction s arbitrary: acc rule: length_induct)
  case (1 s)
  from 1(2) obtain c cs where s: "s = c # cs"
    by (cases s) auto
  from parseChars_step [OF 1(2) [unfolded s]] show ?case
  proof
    assume "c = DQ \<and> r = cs"
    then show ?thesis using s by simp
  next
    assume "\<exists>acc' ys. suffix ys cs \<and> parseChars acc' ys = Some (t, r)"
    then obtain acc' ys where ys: "suffix ys cs" "parseChars acc' ys = Some (t, r)"
      by blast
    then have "length ys < length s"
      using s by (auto dest: suffix_length_le)
    with 1(1) ys(2) have "suffix (DQ # r) ys"
      by blast
    with ys(1) show ?thesis
      using s by (meson suffix_ConsI suffix_order.trans)
  qed
qed

lemma digits1_consumes:
  assumes "digits1 s = Some (d, r)"
  shows "s = d @ r \<and> d \<noteq> [] \<and> isDigit (last d) \<and> isDigit (hd d)"
proof -
  from assms have d: "d = takeWhile isDigit s" "r = dropWhile isDigit s" "d \<noteq> []"
    by (auto simp: digits1_def split: if_splits)
  then have "last d \<in> set (takeWhile isDigit s)" "hd d \<in> set (takeWhile isDigit s)"
    by auto
  then have "isDigit (last d)" "isDigit (hd d)"
    by (auto dest: set_takeWhileD)
  with d show ?thesis by simp
qed

lemma prefix_single: "prefix [c] s \<longleftrightarrow> (\<exists>t. s = c # t)"
  by (cases s) auto

lemma optSign_consumes:
  "optSign s = (sign, s1) \<Longrightarrow> s = sign @ s1 \<and> (sign = [] \<or> sign = ''-'')"
  by (auto simp: optSign_def prefix_single split: if_splits)

lemma intPart_consumes:
  "intPart s = Some (i, r) \<Longrightarrow> s = i @ r \<and> i \<noteq> [] \<and> isDigit (hd i) \<and> isDigit (last i)"
  using digits1_consumes [of s i r]
  by (auto simp: intPart_def prefix_single isDigit_def split: if_splits)

lemma fracPart_consumes:
  assumes "fracPart s = Some (f, r)"
  shows "s = f @ r \<and> (f = [] \<or> isDigit (last f))"
proof (cases "prefix ''.'' s")
  case False
  with assms show ?thesis by (simp add: fracPart_def)
next
  case True
  with assms obtain d where d: "digits1 (tl s) = Some (d, r)" "f = CHR ''.'' # d"
    by (auto simp: fracPart_def)
  from digits1_consumes [OF d(1)] True d(2) show ?thesis
    by (auto simp: prefix_single)
qed

lemma expPart_consumes:
  assumes "expPart s = Some (e, r)"
  shows "s = e @ r \<and> (e = [] \<or> isDigit (last e))"
proof (cases "prefix ''e'' s \<or> prefix ''E'' s")
  case False
  with assms show ?thesis by (simp add: expPart_def)
next
  case True
  show ?thesis
  proof (cases "prefix ''+'' (tl s) \<or> prefix ''-'' (tl s)")
    case signed: True
    with True assms obtain d where d: "digits1 (drop 2 s) = Some (d, r)" "e = take 2 s @ d"
      by (auto simp: expPart_def)
    from digits1_consumes [OF d(1)] have "drop 2 s = d @ r" "d \<noteq> []" "isDigit (last d)"
      by simp_all
    moreover have "s = take 2 s @ drop 2 s"
      by simp
    ultimately show ?thesis
      using d(2) by (metis append.assoc last_appendR)
  next
    case False
    with True assms obtain d where d: "digits1 (tl s) = Some (d, r)" "e = take 1 s @ d"
      by (auto simp: expPart_def)
    from digits1_consumes [OF d(1)] have "tl s = d @ r" "d \<noteq> []" "isDigit (last d)"
      by simp_all
    moreover have "s = take 1 s @ tl s"
      using True by (auto simp: prefix_single)
    ultimately show ?thesis
      using d(2) by (metis append.assoc last_appendR)
  qed
qed

lemma parseNumber_consumes:
  assumes "parseNumber s = Some (l, r)"
  shows "s = l @ r \<and> l \<noteq> [] \<and> hd l \<in> set ''-0123456789'' \<and> last l \<in> set ''0123456789''"
proof -
  from assms obtain sign s1 i s2 f s3 e where
    sg: "optSign s = (sign, s1)" and ip: "intPart s1 = Some (i, s2)" and
    fp: "fracPart s2 = Some (f, s3)" and ep: "expPart s3 = Some (e, r)" and
    l: "l = sign @ i @ f @ e"
    by (auto simp: parseNumber_def split: prod.splits option.splits)
  note 1 = optSign_consumes [OF sg] and 2 = intPart_consumes [OF ip]
    and 3 = fracPart_consumes [OF fp] and 4 = expPart_consumes [OF ep]
  have dig: "isDigit c \<Longrightarrow> c \<in> set ''0123456789''" for c
    by (simp add: isDigit_def)
  have "s = l @ r"
    using 1 2 3 4 l by simp
  moreover have "l \<noteq> []"
    using 2 l by simp
  moreover have "hd l \<in> set ''-0123456789''"
  proof (cases "sign = []")
    case True
    then have "hd l = hd i" using 2 l by simp
    then show ?thesis using 2 dig [of "hd i"] by auto
  next
    case False
    then have "hd l = CHR ''-''" using 1 l by auto
    then show ?thesis by simp
  qed
  moreover have "last l \<in> set ''0123456789''"
  proof -
    have "isDigit (last l)"
      using 2 3 4 l by (cases "e = []"; cases "f = []") auto
    then show ?thesis by (rule dig)
  qed
  ultimately show ?thesis by blast
qed

lemma skipWs_Cons_suffix: "skipWs s = c # r \<Longrightarrow> suffix (c # r) s"
  using skipWs_suffix [of s] by simp

lemma prefix_literal: "prefix w s \<Longrightarrow> length w = k \<Longrightarrow> s = w @ drop k s"
  by (auto simp: prefix_def)

lemma parse_consumes:
  "(parseValue n s = Some (v, r) \<longrightarrow>
      (\<exists>p. s = p @ r \<and> p \<noteq> [] \<and> hd p \<in> set ''ntf\"[{-0123456789''
           \<and> last p \<in> set ''le\"]}0123456789''))
   \<and> (parseElements n acc s = Some (vs, r) \<longrightarrow> suffix (CHR '']'' # r) s)
   \<and> (parseMembers n accm s = Some (ms, r) \<longrightarrow> suffix (CHR ''}'' # r) s)"
proof (induction n arbitrary: s v r acc vs accm ms)
  case 0
  show ?case by simp
next
  case (Suc n)
  have IHv: "suffix r' s'" if "parseValue n s' = Some (v', r')" for s' v' r'
  proof -
    from Suc [of s' v' r' "[]" "[]" "[]" "[]", THEN conjunct1, THEN mp, OF that]
    obtain p where "s' = p @ r'"
      by blast
    then show ?thesis
      by (simp add: suffix_def)
  qed
  have IHe: "suffix (CHR '']'' # r') s'" if "parseElements n acc' s' = Some (vs', r')"
    for s' acc' vs' r'
    by (rule Suc [of s' JNull r' acc' vs' "[]" "[]", THEN conjunct2, THEN conjunct1, THEN mp,
          OF that])
  have IHm: "suffix (CHR ''}'' # r') s'" if "parseMembers n acc' s' = Some (ms', r')"
    for s' acc' ms' r'
    by (rule Suc [of s' JNull r' "[]" "[]" acc' ms', THEN conjunct2, THEN conjunct2, THEN mp,
          OF that])
  have val: "\<exists>p. s = p @ r \<and> p \<noteq> [] \<and> hd p \<in> set ''ntf\"[{-0123456789''
           \<and> last p \<in> set ''le\"]}0123456789''"
    if pv: "parseValue (Suc n) s = Some (v, r)"
  proof -
    consider (null) "prefix ''null'' s" | (true) "\<not> prefix ''null'' s" "prefix ''true'' s"
      | (false) "\<not> prefix ''null'' s" "\<not> prefix ''true'' s" "prefix ''false'' s"
      | (other) "\<not> prefix ''null'' s" "\<not> prefix ''true'' s" "\<not> prefix ''false'' s"
      by blast
    then show ?thesis
    proof cases
      case null
      with pv have "r = drop 4 s" by simp
      with prefix_literal [OF null, of 4] have "s = ''null'' @ r" by simp
      then show ?thesis by (intro exI [of _ "''null''"]) simp
    next
      case true
      with pv have "r = drop 4 s" by simp
      with prefix_literal [OF true(2), of 4] have "s = ''true'' @ r" by simp
      then show ?thesis by (intro exI [of _ "''true''"]) simp
    next
      case false
      with pv have "r = drop 5 s" by simp
      with prefix_literal [OF false(3), of 5] have "s = ''false'' @ r" by simp
      then show ?thesis by (intro exI [of _ "''false''"]) simp
    next
      case other
      with pv obtain c cs where s: "s = c # cs"
        by (cases s) auto
      consider (str) "c = DQ" | (arr) "c = CHR ''[''" | (obj) "c = CHR ''{''"
        | (num) "c \<noteq> DQ" "c \<noteq> CHR ''[''" "c \<noteq> CHR ''{''"
        by blast
      then show ?thesis
      proof cases
        case str
        with pv other s obtain t where "parseChars [] cs = Some (t, r)"
          by auto
        from parseChars_consumes [OF this] obtain q where "cs = q @ DQ # r"
          by (auto simp: suffix_def)
        then have "s = (c # q @ [DQ]) @ r" using s by simp
        then show ?thesis using str by (intro exI [of _ "c # q @ [DQ]"]) simp
      next
        case arr
        have "suffix (CHR '']'' # r) (skipWs cs)"
        proof (cases "prefix '']'' (skipWs cs)")
          case True
          with pv other s arr have "r = tl (skipWs cs)" by simp
          with True show ?thesis by (auto simp: prefix_single)
        next
          case False
          with pv other s arr obtain vs' where "parseElements n [] (skipWs cs) = Some (vs', r)"
            by auto
          then show ?thesis by (rule IHe)
        qed
        with skipWs_suffix [of cs] have "suffix (CHR '']'' # r) cs"
          by (meson suffix_order.trans)
        then obtain q where "cs = q @ CHR '']'' # r"
          by (auto simp: suffix_def)
        then have "s = (c # q @ '']'') @ r" using s by simp
        then show ?thesis using arr by (intro exI [of _ "c # q @ '']''"]) simp
      next
        case obj
        have "suffix (CHR ''}'' # r) (skipWs cs)"
        proof (cases "prefix ''}'' (skipWs cs)")
          case True
          with pv other s obj have "r = tl (skipWs cs)" by simp
          with True show ?thesis by (auto simp: prefix_single)
        next
          case False
          with pv other s obj obtain ms' where "parseMembers n [] (skipWs cs) = Some (ms', r)"
            by auto
          then show ?thesis by (rule IHm)
        qed
        with skipWs_suffix [of cs] have "suffix (CHR ''}'' # r) cs"
          by (meson suffix_order.trans)
        then obtain q where "cs = q @ CHR ''}'' # r"
          by (auto simp: suffix_def)
        then have "s = (c # q @ ''}'') @ r" using s by simp
        then show ?thesis using obj by (intro exI [of _ "c # q @ ''}''"]) simp
      next
        case num
        with pv other s obtain l where "parseNumber s = Some (l, r)"
          by auto
        from parseNumber_consumes [OF this] show ?thesis
          by (intro exI [of _ l]) auto
      qed
    qed
  qed
  have els: "suffix (CHR '']'' # r) s" if pe: "parseElements (Suc n) acc s = Some (vs, r)"
  proof -
    from pe obtain v1 r1 where v1: "parseValue n s = Some (v1, r1)"
      by (auto split: option.splits)
    with pe obtain c r' where c: "skipWs r1 = c # r'"
      by (cases "skipWs r1") auto
    have r1: "suffix (c # r') s"
      using skipWs_Cons_suffix [OF c] IHv [OF v1] by (meson suffix_order.trans)
    show ?thesis
    proof (cases "c = CHR '',''")
      case True
      with pe v1 c have "parseElements n (v1 # acc) (skipWs r') = Some (vs, r)"
        by simp
      from IHe [OF this] skipWs_suffix [of r'] have "suffix (CHR '']'' # r) r'"
        by (meson suffix_order.trans)
      then have "suffix (CHR '']'' # r) (c # r')"
        by (rule suffix_ConsI)
      then show ?thesis using r1 by (meson suffix_order.trans)
    next
      case False
      with pe v1 c have "c = CHR '']''" "r = r'"
        by (auto split: if_splits)
      with r1 show ?thesis by simp
    qed
  qed
  have mems: "suffix (CHR ''}'' # r) s" if pm: "parseMembers (Suc n) accm s = Some (ms, r)"
  proof -
    from pm obtain cs where s: "s = DQ # cs"
      by (cases s) (auto split: if_splits)
    with pm obtain k r0 where k: "parseChars [] cs = Some (k, r0)"
      by (auto split: option.splits)
    with pm s obtain r1 where d: "skipWs r0 = CHR '':'' # r1"
      by (cases "skipWs r0") (auto split: if_splits)
    with pm s k obtain v1 r2 where v1: "parseValue n (skipWs r1) = Some (v1, r2)"
      by (auto split: option.splits)
    with pm s k d obtain e r3 where e: "skipWs r2 = e # r3"
      by (cases "skipWs r2") auto
    have "suffix r0 s"
      using parseChars_consumes [OF k] s by (auto simp: suffix_def)
    moreover have "suffix r1 r0"
      using skipWs_Cons_suffix [OF d] by (auto simp: suffix_def)
    moreover have "suffix r2 r1"
      using IHv [OF v1] skipWs_suffix [of r1] by (meson suffix_order.trans)
    moreover have "suffix (e # r3) r2"
      using e by (rule skipWs_Cons_suffix)
    ultimately have r3: "suffix (e # r3) s"
      by (meson suffix_order.trans)
    show ?thesis
    proof (cases "e = CHR '',''")
      case True
      with pm s k d v1 e have "parseMembers n (AList.update k v1 accm) (skipWs r3) = Some (ms, r)"
        by simp
      from IHm [OF this] skipWs_suffix [of r3] have "suffix (CHR ''}'' # r) r3"
        by (meson suffix_order.trans)
      then have "suffix (CHR ''}'' # r) (e # r3)"
        by (rule suffix_ConsI)
      then show ?thesis using r3 by (meson suffix_order.trans)
    next
      case False
      with pm s k d v1 e have "e = CHR ''}''" "r = r3"
        by (auto split: if_splits)
      with r3 show ?thesis by simp
    qed
  qed
  show ?case using val els mems by blast
qed

lemma whiteSpace_bytes:
  "set (concat whiteSpace) =
    {CHR 0x09, CHR 0x0A, CHR 0x0B, CHR 0x0C, CHR 0x0D, CHR 0x20, CHR 0xC2, CHR 0xA0, CHR 0xE1,
     CHR 0x9A, CHR 0x80, CHR 0xE2, CHR 0x81, CHR 0x82, CHR 0x83, CHR 0x84, CHR 0x85, CHR 0x86,
     CHR 0x87, CHR 0x88, CHR 0x89, CHR 0x8A, CHR 0xA8, CHR 0xA9, CHR 0xAF, CHR 0x9F, CHR 0xE3,
     CHR 0xEF, CHR 0xBB, CHR 0xBF}"
  unfolding whiteSpace_def by (simp add: insert_commute)

lemma isJsonWs_bytes: "isJsonWs c \<Longrightarrow> c \<in> set (concat whiteSpace)"
  unfolding whiteSpace_bytes isJsonWs_def by auto

lemma stripOne_plain:
  assumes "c \<notin> set (concat ws)"
  shows "stripOne ws (c # x) = None"
proof -
  have "\<not> (w \<noteq> [] \<and> prefix w (c # x))" if "w \<in> set ws" for w
  proof
    assume "w \<noteq> [] \<and> prefix w (c # x)"
    then have "c \<in> set w"
      by (cases w) auto
    with that assms show False
      by auto
  qed
  then have "find (\<lambda>w. w \<noteq> [] \<and> prefix w (c # x)) ws = None"
    by (simp add: find_None_iff)
  then show ?thesis
    by (simp add: stripOne_def)
qed

lemma stripOne_json_ws:
  assumes "isJsonWs c"
  shows "stripOne whiteSpace (c # x) = Some x" and "stripOne (map rev whiteSpace) (c # x) = Some x"
proof -
  from assms consider "c = CHR 0x20" | "c = CHR 0x09" | "c = LF" | "c = CHR 0x0D"
    unfolding isJsonWs_def by auto
  then show "stripOne whiteSpace (c # x) = Some x"
    by cases (simp_all add: stripOne_def whiteSpace_def)
  from assms consider "c = CHR 0x20" | "c = CHR 0x09" | "c = LF" | "c = CHR 0x0D"
    unfolding isJsonWs_def by auto
  then show "stripOne (map rev whiteSpace) (c # x) = Some x"
    by cases (simp_all add: stripOne_def whiteSpace_def)
qed

lemma stripLeading_skipWs:
  "stripLeading whiteSpace s = stripLeading whiteSpace (skipWs s)"
  "stripLeading (map rev whiteSpace) s = stripLeading (map rev whiteSpace) (skipWs s)"
proof (induction s)
  case Nil
  { case 1 show ?case by (simp add: skipWs_def) }
  { case 2 show ?case by (simp add: skipWs_def) }
next
  case (Cons c cs)
  { case 1
    show ?case
    proof (cases "isJsonWs c")
      case True
      then have "stripLeading whiteSpace (c # cs) = stripLeading whiteSpace cs"
        by (subst stripLeading.simps) (simp add: stripOne_json_ws)
      with True Cons(1) show ?thesis by (simp add: skipWs_def)
    next
      case False
      then show ?thesis by (simp add: skipWs_def)
    qed }
  { case 2
    show ?case
    proof (cases "isJsonWs c")
      case True
      then have "stripLeading (map rev whiteSpace) (c # cs) = stripLeading (map rev whiteSpace) cs"
        by (subst stripLeading.simps) (simp add: stripOne_json_ws)
      with True Cons(2) show ?thesis by (simp add: skipWs_def)
    next
      case False
      then show ?thesis by (simp add: skipWs_def)
    qed }
qed

lemma stripLeading_plain: "c \<notin> set (concat ws) \<Longrightarrow> stripLeading ws (c # x) = c # x"
  by (subst stripLeading.simps) (simp add: stripOne_plain)

lemma skipWs_plain: "c \<notin> set (concat whiteSpace) \<Longrightarrow> skipWs (c # x) = c # x"
  using isJsonWs_bytes [of c] by (auto simp: skipWs_def)

lemma trim_of_json_text:
  assumes b: "trimJsonWs t = b" and ne: "b \<noteq> []"
    and h: "hd b \<notin> set (concat whiteSpace)" and l: "last b \<notin> set (concat whiteSpace)"
  shows "trim t = b" and "trimJsonWs b = b"
proof -
  from b have rb: "skipWs (rev (skipWs t)) = rev b"
    by (auto simp: trimJsonWs_def)
  from ne obtain e y where e: "rev b = e # y" "e = last b"
    by (cases b rule: rev_cases) auto
  from ne obtain c x where c: "b = c # x" "c = hd b"
    by (cases b) auto
  have "suffix (rev b) (rev (skipWs t))"
    using skipWs_suffix [of "rev (skipWs t)"] rb by simp
  then obtain z where "rev (skipWs t) = z @ rev b"
    by (auto simp: suffix_def)
  then have st: "skipWs t = b @ rev z"
    by (metis rev_append rev_rev_ident)
  have l': "e \<notin> set (concat (map rev whiteSpace))"
    using l e(2) by simp
  have h': "c \<notin> set (concat whiteSpace)"
    using h c(2) by simp
  have "stripLeading whiteSpace (skipWs t) = skipWs t"
    unfolding st c(1) append_Cons using h' by (rule stripLeading_plain)
  then have "trimStart t = skipWs t"
    unfolding trimStart_def by (subst stripLeading_skipWs)
  moreover have "trimEnd (skipWs t) = b"
  proof -
    have "stripLeading (map rev whiteSpace) (rev (skipWs t))
            = stripLeading (map rev whiteSpace) (rev b)"
      by (subst stripLeading_skipWs) (simp add: rb)
    also have "\<dots> = rev b"
      unfolding e(1) using l' by (rule stripLeading_plain)
    finally show ?thesis
      by (simp add: trimEnd_def)
  qed
  ultimately show "trim t = b"
    by (simp add: trim_def)
  have "skipWs b = b"
    unfolding c(1) using h' by (rule skipWs_plain)
  moreover have "e \<notin> set (concat whiteSpace)"
    using l e(2) by simp
  then have "skipWs (rev b) = rev b"
    unfolding e(1) by (rule skipWs_plain)
  ultimately show "trimJsonWs b = b"
    by (simp add: trimJsonWs_def)
qed

lemma value_chars_plain:
  "c \<in> set ''ntf\"[{-0123456789'' \<Longrightarrow> c \<notin> set (concat whiteSpace) \<and> c \<noteq> CHR ''`''"
  "c \<in> set ''le\"]}0123456789'' \<Longrightarrow> c \<notin> set (concat whiteSpace)"
  unfolding whiteSpace_bytes by auto

lemma JSON_parse_shape:
  assumes "JSON_parse t = Some v"
  shows "trimJsonWs t \<noteq> [] \<and> hd (trimJsonWs t) \<in> set ''ntf\"[{-0123456789''
       \<and> last (trimJsonWs t) \<in> set ''le\"]}0123456789''"
proof -
  from assms have "parseValue (2 * length (trimJsonWs t) + 1) (trimJsonWs t) = Some (v, [])"
    by (auto simp: JSON_parse_def split: option.splits if_splits)
  from parse_consumes [THEN conjunct1, THEN mp, OF this] show ?thesis
    by auto
qed

lemma JSON_parse_trim:
  assumes "JSON_parse t = Some v"
  shows "JSON_parse (trim t) = Some v" and "trim t \<noteq> []" and "\<not> startsWith (trim t) ''```json''"
proof -
  note s = JSON_parse_shape [OF assms]
  from s value_chars_plain [of "hd (trimJsonWs t)"] value_chars_plain(2) [of "last (trimJsonWs t)"]
  have p: "hd (trimJsonWs t) \<notin> set (concat whiteSpace)" "hd (trimJsonWs t) \<noteq> CHR ''`''"
    "last (trimJsonWs t) \<notin> set (concat whiteSpace)"
    by blast+
  from s have ne: "trimJsonWs t \<noteq> []" by simp
  note tr = trim_of_json_text [OF refl ne p(1) p(3)]
  show "JSON_parse (trim t) = Some v"
    using assms by (simp add: JSON_parse_def tr)
  show "trim t \<noteq> []"
    using ne by (simp add: tr)
  show "\<not> startsWith (trim t) ''```json''"
    using ne p(2) by (cases "trimJsonWs t") (auto simp: tr startsWith_def)
qed

subsection \<open>Fuel\<close>

lemma parseValue_shorter:
  assumes "parseValue n s = Some (v, r)"
  shows "length r < length s"
proof -
  from parse_consumes [of n s v r, THEN conjunct1, THEN mp, OF assms]
  obtain p where "s = p @ r" "p \<noteq> []"
    by blast
  then show ?thesis
    by simp
qed

lemma parseElements_consumes:
  "parseElements n acc s = Some (vs, r) \<Longrightarrow> suffix (CHR '']'' # r) s"
  using parse_consumes [where n = n and acc = acc and s = s and vs = vs and r = r] by blast

lemma parseMembers_consumes:
  "parseMembers n accm s = Some (ms, r) \<Longrightarrow> suffix (CHR ''}'' # r) s"
  using parse_consumes [where n = n and accm = accm and s = s and ms = ms and r = r] by blast

lemma suffix_Cons_shorter: "suffix (c # r) s \<Longrightarrow> length r < length s"
  by (auto simp: suffix_def)

lemma skipWs_length: "length (skipWs s) \<le> length s"
  using skipWs_suffix [of s] by (rule suffix_length_le)

lemma fuel_adequate:
  "(parseValue n s = Some (v, r) \<longrightarrow>
      (\<forall>m. 2 * (length s - length r) \<le> m + 1 \<longrightarrow> parseValue m s = Some (v, r)))
   \<and> (parseElements n acc s = Some (vs, r) \<longrightarrow>
      (\<forall>m. 2 * (length s - length r) \<le> m + 2 \<longrightarrow> parseElements m acc s = Some (vs, r)))
   \<and> (parseMembers n accm s = Some (ms, r) \<longrightarrow>
      (\<forall>m. 2 * (length s - length r) \<le> m + 2 \<longrightarrow> parseMembers m accm s = Some (ms, r)))"
proof (induction n arbitrary: s v r acc vs accm ms)
  case 0
  show ?case by simp
next
  case (Suc n)
  have IHv: "parseValue m s' = Some (v', r')"
    if "parseValue n s' = Some (v', r')" "2 * (length s' - length r') \<le> m + 1" for s' v' r' m
    using Suc [of s' v' r' "[]" "[]" "[]" "[]", THEN conjunct1] that by blast
  have IHe: "parseElements m acc' s' = Some (vs', r')"
    if "parseElements n acc' s' = Some (vs', r')" "2 * (length s' - length r') \<le> m + 2"
    for s' acc' vs' r' m
    using Suc [of s' JNull r' acc' vs' "[]" "[]", THEN conjunct2, THEN conjunct1] that by blast
  have IHm: "parseMembers m acc' s' = Some (ms', r')"
    if "parseMembers n acc' s' = Some (ms', r')" "2 * (length s' - length r') \<le> m + 2"
    for s' acc' ms' r' m
    using Suc [of s' JNull r' "[]" "[]" acc' ms', THEN conjunct2, THEN conjunct2] that by blast
  have val: "parseValue m s = Some (v, r)"
    if pv: "parseValue (Suc n) s = Some (v, r)" and m: "2 * (length s - length r) \<le> m + 1" for m
  proof -
    from parseValue_shorter [OF pv] m obtain k where k: "m = Suc k"
      by (cases m) auto
    show ?thesis
    proof (cases "prefix ''null'' s \<or> prefix ''true'' s \<or> prefix ''false'' s")
      case True
      then have "parseValue (Suc k) s = parseValue (Suc n) s"
        by auto
      with pv show ?thesis unfolding k by simp
    next
      case lit: False
      with pv obtain c cs where s: "s = c # cs"
        by (cases s) auto
      show ?thesis
      proof (cases "c = CHR ''[''")
        case arr: True
        show ?thesis
        proof (cases "prefix '']'' (skipWs cs)")
          case True
          with arr have "parseValue (Suc k) s = parseValue (Suc n) s"
            unfolding s by simp
          with pv show ?thesis unfolding k by simp
        next
          case False
          with pv lit s arr obtain vs' where
            e: "parseElements n [] (skipWs cs) = Some (vs', r)" and v: "v = JArray vs'"
            by auto
          have "length (skipWs cs) - length r \<le> length s - length r - 1"
            using skipWs_length [of cs] s by simp
          with m k have "2 * (length (skipWs cs) - length r) \<le> k + 2"
            by simp
          from IHe [OF e this] show ?thesis
            unfolding k using lit s arr False v by simp
        qed
      next
        case narr: False
        show ?thesis
        proof (cases "c = CHR ''{''")
          case obj: True
          show ?thesis
          proof (cases "prefix ''}'' (skipWs cs)")
            case True
            with obj have "parseValue (Suc k) s = parseValue (Suc n) s"
              unfolding s by simp
            with pv show ?thesis unfolding k by simp
          next
            case False
            with pv lit s obj obtain ms' where
              e: "parseMembers n [] (skipWs cs) = Some (ms', r)" and v: "v = JObject ms'"
              by auto
            have "length (skipWs cs) - length r \<le> length s - length r - 1"
              using skipWs_length [of cs] s by simp
            with m k have "2 * (length (skipWs cs) - length r) \<le> k + 2"
              by simp
            from IHm [OF e this] show ?thesis
              unfolding k using lit s obj False v by simp
          qed
        next
          case False
          with narr have "parseValue (Suc k) s = parseValue (Suc n) s"
            unfolding s by simp
          with pv show ?thesis unfolding k by simp
        qed
      qed
    qed
  qed
  have els: "parseElements m acc s = Some (vs, r)"
    if pe: "parseElements (Suc n) acc s = Some (vs, r)" and m: "2 * (length s - length r) \<le> m + 2"
    for m
  proof -
    from pe obtain v1 r1 where v1: "parseValue n s = Some (v1, r1)"
      by (auto split: option.splits)
    with pe obtain c r' where c: "skipWs r1 = c # r'"
      by (cases "skipWs r1") auto
    have l1: "length r1 < length s"
      using v1 by (rule parseValue_shorter)
    have l2: "length r' < length r1"
      using skipWs_Cons_suffix [OF c] by (rule suffix_Cons_shorter)
    have l3: "length r \<le> length r'"
    proof (cases "c = CHR '',''")
      case True
      with pe v1 c have "parseElements n (v1 # acc) (skipWs r') = Some (vs, r)"
        by simp
      from parseElements_consumes [OF this]
      have "length r < length (skipWs r')"
        by (rule suffix_Cons_shorter)
      with skipWs_length [of r'] show ?thesis by simp
    next
      case False
      with pe v1 c show ?thesis by (auto split: if_splits)
    qed
    from l1 l2 l3 m obtain k where k: "m = Suc k"
      by (cases m) auto
    have "2 * (length s - length r1) \<le> k + 1"
      using l1 l2 l3 m k by simp
    from IHv [OF v1 this] have v1': "parseValue k s = Some (v1, r1)" .
    show ?thesis
    proof (cases "c = CHR '',''")
      case True
      with pe v1 c have e: "parseElements n (v1 # acc) (skipWs r') = Some (vs, r)"
        by simp
      have "2 * (length (skipWs r') - length r) \<le> k + 2"
        using skipWs_length [of r'] l1 l2 l3 m k by simp
      from IHe [OF e this] show ?thesis
        unfolding k using v1' c True by simp
    next
      case False
      with pe v1 c show ?thesis
        unfolding k using v1' by (auto split: if_splits)
    qed
  qed
  have mems: "parseMembers m accm s = Some (ms, r)"
    if pm: "parseMembers (Suc n) accm s = Some (ms, r)" and m: "2 * (length s - length r) \<le> m + 2"
    for m
  proof -
    from pm obtain cs where s: "s = DQ # cs"
      by (cases s) (auto split: if_splits)
    with pm obtain k0 r0 where k0: "parseChars [] cs = Some (k0, r0)"
      by (auto split: option.splits)
    with pm s obtain r1 where d: "skipWs r0 = CHR '':'' # r1"
      by (cases "skipWs r0") (auto split: if_splits)
    with pm s k0 obtain v1 r2 where v1: "parseValue n (skipWs r1) = Some (v1, r2)"
      by (auto split: option.splits)
    with pm s k0 d obtain e r3 where e: "skipWs r2 = e # r3"
      by (cases "skipWs r2") auto
    have l0: "length r0 < length cs"
      using parseChars_consumes [OF k0] by (rule suffix_Cons_shorter)
    have l1: "length r1 < length r0"
      using skipWs_Cons_suffix [OF d] by (rule suffix_Cons_shorter)
    have l2: "length r2 < length (skipWs r1)"
      using v1 by (rule parseValue_shorter)
    have l2': "length (skipWs r1) \<le> length r1"
      by (rule skipWs_length)
    have l3: "length r3 < length r2"
      using skipWs_Cons_suffix [OF e] by (rule suffix_Cons_shorter)
    have l4: "length r \<le> length r3"
    proof (cases "e = CHR '',''")
      case True
      with pm s k0 d v1 e have
        "parseMembers n (AList.update k0 v1 accm) (skipWs r3) = Some (ms, r)"
        by simp
      from parseMembers_consumes [OF this]
      have "length r < length (skipWs r3)"
        by (rule suffix_Cons_shorter)
      with skipWs_length [of r3] show ?thesis by simp
    next
      case False
      with pm s k0 d v1 e show ?thesis by (auto split: if_splits)
    qed
    from s l0 l1 l2 l2' l3 l4 m obtain k where k: "m = Suc k"
      by (cases m) auto
    have "2 * (length (skipWs r1) - length r2) \<le> k + 1"
      using s l0 l1 l2 l2' l3 l4 m k by simp
    from IHv [OF v1 this] have v1': "parseValue k (skipWs r1) = Some (v1, r2)" .
    show ?thesis
    proof (cases "e = CHR '',''")
      case True
      with pm s k0 d v1 e have
        e': "parseMembers n (AList.update k0 v1 accm) (skipWs r3) = Some (ms, r)"
        by simp
      have "2 * (length (skipWs r3) - length r) \<le> k + 2"
        using skipWs_length [of r3] s l0 l1 l2 l2' l3 l4 m k by simp
      from IHm [OF e' this] show ?thesis
        unfolding k using s k0 d v1' e True by simp
    next
      case False
      with pm s k0 d v1 e show ?thesis
        unfolding k using v1' by (auto split: if_splits)
    qed
  qed
  show ?case using val els mems by blast
qed

text \<open>
  The fuel that \<open>JSON_parse\<close> supplies is enough: it accepts a text exactly when some
  amount of fuel does.
\<close>

lemma JSON_parse_any_fuel:
  "JSON_parse s = Some v \<longleftrightarrow> (\<exists>n. parseValue n (trimJsonWs s) = Some (v, []))"
proof
  define n where "n = 2 * length (trimJsonWs s) + 1"
  assume "JSON_parse s = Some v"
  then have "parseValue n (trimJsonWs s) = Some (v, [])"
    unfolding JSON_parse_def n_def [symmetric] by (auto split: option.splits if_splits)
  then show "\<exists>n. parseValue n (trimJsonWs s) = Some (v, [])"
    by blast
next
  define k where "k = 2 * length (trimJsonWs s) + 1"
  assume "\<exists>n. parseValue n (trimJsonWs s) = Some (v, [])"
  then obtain n where "parseValue n (trimJsonWs s) = Some (v, [])"
    by blast
  note enough = fuel_adequate [of n "trimJsonWs s" v "[]", THEN conjunct1, THEN mp, OF this,
      THEN spec, of k, THEN mp]
  have "2 * (length (trimJsonWs s) - length ([] :: string)) \<le> k + 1"
    by (simp add: k_def)
  then have "parseValue k (trimJsonWs s) = Some (v, [])"
    by (rule enough)
  then show "JSON_parse s = Some v"
    unfolding JSON_parse_def k_def [symmetric] by simp
qed

section \<open>Decoding a response\<close>

lemma stripLeading_None: "stripOne ws s = None \<Longrightarrow> stripLeading ws s = s"
  by (subst stripLeading.simps) simp

lemma stripOne_backtick: "stripOne whiteSpace (CHR ''`'' # s) = None"
  by (simp add: stripOne_def whiteSpace_def)

lemma stripOne_rev_backtick: "stripOne (map rev whiteSpace) (CHR ''`'' # s) = None"
  by (simp add: stripOne_def whiteSpace_def)

lemma trim_backticks: "trim (CHR ''`'' # s @ ''`'') = CHR ''`'' # s @ ''`''"
  by (simp add: trim_def trimStart_def trimEnd_def stripLeading_None stripOne_backtick
      stripOne_rev_backtick)

lemma trim_fenced: "trim (fenced t) = fenced t"
  using trim_backticks [of "''``json'' @ [LF] @ t @ [LF] @ ''``''"] by (simp add: fenced_def)

lemma stripFence_fenced: "stripFence (fenced t) = t"
  by (simp add: stripFence_def fenced_def startsWith_def suffix_def)

lemma stripFence_unfenced: "\<not> startsWith s ''```json'' \<Longrightarrow> stripFence s = s"
  by (simp add: stripFence_def)

lemma decodeResponse_fenced:
  "decodeResponse env noResponse (Result (Some (fenced t))) =
     (case JSON_parse t of None \<Rightarrow> Inl (Some (syntaxErrorMessage env t)) | Some v \<Rightarrow> Inr v)"
proof -
  have "fenced t \<noteq> []"
    by (simp add: fenced_def)
  then show ?thesis
    by (simp add: decodeResponse_def trim_fenced stripFence_fenced)
qed

lemma trim_Nil: "trim [] = []"
proof -
  have "stripOne ws [] = None" for ws
    by (simp add: stripOne_def find_None_iff)
  then show ?thesis
    by (simp add: trim_def trimStart_def trimEnd_def stripLeading_None)
qed

lemma decodeResponse_valid:
  assumes "JSON_parse t = Some v"
  shows "decodeResponse env noResponse (Result (Some t)) = Inr v"
proof -
  from JSON_parse_trim(2) [OF assms] have "t \<noteq> []"
    using trim_Nil by auto
  then show ?thesis
    using JSON_parse_trim [OF assms]
    by (simp add: decodeResponse_def stripFence_unfenced)
qed

text \<open>
  C4. For every text \<open>t\<close>, trimming the fenced text and stripping the fence gives back
  \<open>t\<close>, so decoding the fenced response yields what \<^verbatim>\<open>JSON.parse\<close> yields on \<open>t\<close>. When
  \<open>t\<close> is valid JSON, with or without white space around it, the fenced and the unfenced
  response decode to the same object, and the stripping step leaves the trimmed unfenced
  text as it is. On any text that does not start with the fence, the stripping step
  changes nothing.
\<close>

theorem fence_stripping:
  "stripFence (trim (fenced t)) = t
   \<and> decodeResponse env noResponse (Result (Some (fenced t))) =
       (case JSON_parse t of None \<Rightarrow> Inl (Some (syntaxErrorMessage env t)) | Some v \<Rightarrow> Inr v)
   \<and> (JSON_parse t = Some v \<longrightarrow>
        decodeResponse env noResponse (Result (Some (fenced t))) = Inr v
        \<and> decodeResponse env noResponse (Result (Some t)) = Inr v
        \<and> stripFence (trim t) = trim t)
   \<and> (\<not> startsWith s ''```json'' \<longrightarrow> stripFence s = s)"
proof -
  have "decodeResponse env noResponse (Result (Some (fenced t))) = Inr v
        \<and> decodeResponse env noResponse (Result (Some t)) = Inr v
        \<and> stripFence (trim t) = trim t"
    if "JSON_parse t = Some v"
    using that JSON_parse_trim(3) [OF that]
    by (simp add: decodeResponse_fenced decodeResponse_valid stripFence_unfenced)
  then show ?thesis
    by (simp add: trim_fenced stripFence_fenced decodeResponse_fenced stripFence_unfenced)
qed

lemma sample_object_parses:
  "JSON_parse ('' '' @ ''{\"allProvided\":true}'' @ [LF])
     = Some (JObject [(''allProvided'', JBool True)])"
  by code_simp

lemma sample_object_unfenced:
  "\<not> startsWith ('' '' @ ''{\"allProvided\":true}'' @ [LF]) ''```json''
   \<and> trim ('' '' @ ''{\"allProvided\":true}'' @ [LF]) = ''{\"allProvided\":true}''"
  by code_simp

theorem fence_stripping_witness:
  "stripFence (trim (fenced ('' '' @ ''{\"allProvided\":true}'' @ [LF])))
     = '' '' @ ''{\"allProvided\":true}'' @ [LF]
   \<and> decodeResponse (answering []) ''No response from AI check.''
         (Result (Some (fenced ('' '' @ ''{\"allProvided\":true}'' @ [LF])))) =
       Inr (JObject [(''allProvided'', JBool True)])
   \<and> decodeResponse (answering []) ''No response from AI check.''
         (Result (Some ('' '' @ ''{\"allProvided\":true}'' @ [LF]))) =
       Inr (JObject [(''allProvided'', JBool True)])
   \<and> stripFence ''{\"allProvided\":true}'' = ''{\"allProvided\":true}''
   \<and> stripFence ('' '' @ ''{\"allProvided\":true}'' @ [LF])
       = '' '' @ ''{\"allProvided\":true}'' @ [LF]"
proof -
  let ?t = "'' '' @ ''{\"allProvided\":true}'' @ [LF]"
  let ?v = "JObject [(''allProvided'', JBool True)]"
  note f = fence_stripping [of ?t "answering []" "''No response from AI check.''" ?v ?t]
  have 1: "stripFence (trim (fenced ?t)) = ?t"
    using f by (rule conjunct1)
  have 2: "decodeResponse (answering []) ''No response from AI check.''
             (Result (Some (fenced ?t))) = Inr ?v
           \<and> decodeResponse (answering []) ''No response from AI check.''
             (Result (Some ?t)) = Inr ?v
           \<and> stripFence (trim ?t) = trim ?t"
    using f [THEN conjunct2, THEN conjunct2, THEN conjunct1] sample_object_parses by (rule mp)
  then have 3: "stripFence ''{\"allProvided\":true}'' = ''{\"allProvided\":true}''"
    using sample_object_unfenced by (simp only:)
  have 4: "stripFence ?t = ?t"
    using f [THEN conjunct2, THEN conjunct2, THEN conjunct2] sample_object_unfenced by blast
  show ?thesis
    using 1 2 3 4 by blast
qed

section \<open>The completeness check\<close>

lemma check_inconsistent:
  "snd (checkFileCompleteness (answering inconsistentResponse) pdfMaster [''M1_datasheet.pdf''])
     = Inr inconsistentResult"
  by code_simp

text \<open>
  C1, as the code has it: a completeness check that returns a result has normalized the
  master list and made one outbound call, and the result is the object decoded from the
  text of that call's response, trimmed and with its fence stripped. Its \<^verbatim>\<open>allProvided\<close>
  field is the one the response carries; the code neither computes it nor compares it
  with the rows.
\<close>

theorem checkFileCompleteness_returns_decoded_response:
  assumes "snd (checkFileCompleteness env master filenames) = Inr r"
  shows "\<exists>request text.
           fst (checkFileCompleteness env master filenames)
             = [Normalize master, Generate request]
           \<and> generateContent env request = Result (Some text)
           \<and> JSON_parse (stripFence (trim text)) = Some r"
  using assms
  by (auto simp: checkFileCompleteness_def caught_def decodeResponse_def Let_def
      split: if_splits sum.splits option.splits Outcome.splits)

theorem checkFileCompleteness_returns_decoded_response_witness:
  "\<exists>request text.
     fst (checkFileCompleteness (answering inconsistentResponse) pdfMaster [''M1_datasheet.pdf''])
       = [Normalize pdfMaster, Generate request]
     \<and> generateContent (answering inconsistentResponse) request = Result (Some text)
     \<and> JSON_parse (stripFence (trim text)) = Some inconsistentResult"
  by (rule checkFileCompleteness_returns_decoded_response [OF check_inconsistent])

text \<open>
  C1 as stated fails: when the service answers with \<^verbatim>\<open>allProvided\<close> true beside a part
  whose status is Missing, the check returns exactly that.
\<close>

theorem allProvided_true_with_missing_part:
  "snd (checkFileCompleteness (answering inconsistentResponse) pdfMaster [''M1_datasheet.pdf''])
     = Inr inconsistentResult
   \<and> allProvided inconsistentResult
   \<and> \<not> everyPartProvided inconsistentResult"
proof -
  have "allProvided inconsistentResult" and "\<not> everyPartProvided inconsistentResult"
    by code_simp+
  then show ?thesis
    using check_inconsistent by simp
qed

section \<open>The analysis\<close>

lemma pdfMaster_valid: "validateMimeType pdfMaster = Inr ()"
  by (simp add: validateMimeType_def pdfMaster_def supportedTypes_def)

lemma pdfMaster_normalizes:
  "getFileContentPart (answering response) pdfMaster ''Master List''
     = Inr (InlineData PDF ''JVBERi0xLjQ='')"
  by (simp add: getFileContentPart_def isExcel_def pdfMaster_def string_tests)

text \<open>
  C2: with a key configured and a master list that validates and normalizes, the
  analysis of an empty list of datasheets fails with the error "No datasheets provided
  for analysis." and makes no outbound call.
\<close>

theorem no_datasheets_no_call:
  assumes "\<not> falsy (API_KEY env)"
    and "validateMimeType master = Inr ()"
    and "getFileContentPart env master ''Master List'' = Inr p"
  shows "snd (analyzeDatasheets env master []) =
           Inl (Error ''No datasheets provided for analysis.'')
       \<and> outboundCalls (fst (analyzeDatasheets env master [])) = 0"
  using assms by (simp add: analyzeDatasheets_def outboundCalls_def)

theorem no_datasheets_no_call_witness:
  "snd (analyzeDatasheets (answering ''{}'') pdfMaster []) =
     Inl (Error ''No datasheets provided for analysis.'')
   \<and> outboundCalls (fst (analyzeDatasheets (answering ''{}'') pdfMaster [])) = 0"
  by (rule no_datasheets_no_call [OF answering_has_key pdfMaster_valid pdfMaster_normalizes])

section \<open>The session state\<close>

lemma upstream_changes_discard_check:
  "checkResult (selectMasterList f prev) = None
   \<and> checkResult (removeDatasheet i prev) = None
   \<and> checkResult (clearAll prev) = None
   \<and> checkResult (handleDatasheetSelect (Single d) prev) = None
   \<and> checkResult (handleDatasheetSelect (Many ds) prev) = None"
  by (simp add: selectMasterList_def removeDatasheet_def clearAll_def handleDatasheetSelect_def)

lemma adding_datasheets_discards_analysis:
  "result (handleDatasheetSelect (Single d) prev) = None
   \<and> result (handleDatasheetSelect (Many ds) prev) = None"
  by (simp add: handleDatasheetSelect_def)

text \<open>
  Three of the updates leave the field of the analysis result as they find it.
\<close>

lemma other_changes_keep_analysis:
  "result (selectMasterList f prev) = result prev
   \<and> result (removeDatasheet i prev) = result prev
   \<and> result (clearAll prev) = result prev"
  by (simp add: selectMasterList_def removeDatasheet_def clearAll_def)





lemma flags_cleared_by_last_update:
  "\<not> isChecking (checkSucceeded r prev)" "\<not> isChecking (checkFailed err prev)"
  "\<not> isAnalyzing (analyzeSucceeded r prev)" "\<not> isAnalyzing (analyzeFailed err prev)"
  by (simp_all add: checkSucceeded_def checkFailed_def analyzeSucceeded_def analyzeFailed_def
      split: error.splits)

text \<open>
  C9: a phase that starts, because a master list and at least one datasheet are present,
  ends with its loading flag false, whatever the service did. The update that ends the
  phase, on success and on failure alike, sets the flag to false in whatever state it is
  applied to.
\<close>

theorem loading_flags_cleared:
  assumes "masterList state = Some m" and "datasheets state \<noteq> []"
  shows "\<not> isChecking (handleCheckCompleteness env state)
       \<and> \<not> isAnalyzing (handleAnalyze env state)
       \<and> \<not> isChecking (checkSucceeded r prev) \<and> \<not> isChecking (checkFailed err prev)
       \<and> \<not> isAnalyzing (analyzeSucceeded r prev) \<and> \<not> isAnalyzing (analyzeFailed err prev)"
proof -
  have "\<not> isChecking (handleCheckCompleteness env state)"
    using assms
    by (simp add: handleCheckCompleteness_def flags_cleared_by_last_update split: sum.splits)
  moreover have "\<not> isAnalyzing (handleAnalyze env state)"
    using assms by (simp add: handleAnalyze_def flags_cleared_by_last_update split: sum.splits)
  ultimately show ?thesis
    by (simp add: flags_cleared_by_last_update)
qed

lemma analysedState_ready:
  "masterList (analysedState\<lparr> isChecking := True, isAnalyzing := True \<rparr>) = Some pdfMaster"
  "datasheets (analysedState\<lparr> isChecking := True, isAnalyzing := True \<rparr>) \<noteq> []"
  by (simp_all add: analysedState_def)

theorem loading_flags_cleared_witness:
  "\<not> isChecking (handleCheckCompleteness (answering inconsistentResponse)
                   (analysedState\<lparr> isChecking := True, isAnalyzing := True \<rparr>))
   \<and> \<not> isAnalyzing (handleAnalyze (answering ''not json'')
                      (analysedState\<lparr> isChecking := True, isAnalyzing := True \<rparr>))
   \<and> \<not> isChecking (checkSucceeded storedCheck analysedState)
   \<and> \<not> isChecking (checkFailed (Error ''Check Failed: Unknown error'') analysedState)
   \<and> \<not> isAnalyzing (analyzeSucceeded storedAnalysis analysedState)
   \<and> \<not> isAnalyzing (analyzeFailed (Error ''AI Analysis Failed: Unknown error'') analysedState)"
  using loading_flags_cleared [OF analysedState_ready, of "answering inconsistentResponse"
      storedCheck analysedState "Error ''Check Failed: Unknown error''"]
    loading_flags_cleared [OF analysedState_ready, of "answering ''not json''"
      storedAnalysis analysedState "Error ''AI Analysis Failed: Unknown error''"]
  by blast

section \<open>The export\<close>

subsection \<open>What a reader gets back from a data row\<close>

lemma escapeQuotes_Nil: "escapeQuotes [] = []"
  by (simp add: escapeQuotes_def)

lemma escapeQuotes_Cons:
  "escapeQuotes (c # cs) = (if c = DQ then [DQ, DQ] else [c]) @ escapeQuotes cs"
  by (simp add: escapeQuotes_def)

lemma csvSplit_quoted_last: "csvSplit Quoted acc (escapeQuotes x @ [DQ]) = [rev acc @ x]"
  by (induction x arbitrary: acc) (simp_all add: escapeQuotes_Nil escapeQuotes_Cons)

lemma csvSplit_quoted_comma:
  "csvSplit Quoted acc (escapeQuotes x @ DQ # CHR '','' # rest)
     = (rev acc @ x) # csvSplit FieldStart [] rest"
  by (induction x arbitrary: acc) (simp_all add: escapeQuotes_Nil escapeQuotes_Cons)

lemma csvSplit_unquoted_comma:
  "CHR '','' \<notin> set x \<Longrightarrow>
   csvSplit Unquoted acc (x @ CHR '','' # rest) = (rev acc @ x) # csvSplit FieldStart [] rest"
  by (induction x arbitrary: acc) auto

lemma csvSplit_start_plain:
  assumes "CHR '','' \<notin> set x" and "DQ \<notin> set x"
  shows "csvSplit FieldStart [] (x @ CHR '','' # rest) = x # csvSplit FieldStart [] rest"
proof (cases x)
  case Nil
  then show ?thesis by simp
next
  case (Cons c cs)
  then show ?thesis
    using assms csvSplit_unquoted_comma [of cs "[c]" rest] by auto
qed

lemma csvSplit_start_quoted_comma:
  "csvSplit FieldStart [] (quoted (escapeQuotes x) @ CHR '','' # rest)
     = x # csvSplit FieldStart [] rest"
  using csvSplit_quoted_comma [of "[]" x rest] by (simp add: quoted_def)

lemma csvSplit_start_quoted_last: "csvSplit FieldStart [] (quoted (escapeQuotes x)) = [x]"
  using csvSplit_quoted_last [of "[]" x] by (simp add: quoted_def)

lemma decimal_digits: "set (decimal n) \<subseteq> set ''0123456789''"
proof (induction n rule: decimal.induct)
  case (1 n)
  have d: "digit k \<in> set ''0123456789''" if "k < 10" for k
    unfolding digit_def using that by (intro nth_mem) simp
  show ?case
  proof (cases "n < 10")
    case True
    then show ?thesis
      using d [of n] by (subst decimal.simps) simp
  next
    case False
    have "n mod 10 < 10"
      by simp
    then show ?thesis
      using False 1 d [of "n mod 10"] by (subst decimal.simps) simp
  qed
qed

lemma decimal_plain: "CHR '','' \<notin> set (decimal n) \<and> DQ \<notin> set (decimal n)"
proof -
  have "CHR '','' \<notin> set ''0123456789''" and "DQ \<notin> set ''0123456789''"
    by simp_all
  then show ?thesis
    using decimal_digits [of n] by blast
qed

lemma showInt_plain: "CHR '','' \<notin> set (showInt n) \<and> DQ \<notin> set (showInt n)"
  using decimal_plain [of "nat n"] decimal_plain [of "nat (- n)"]
  by (simp add: showInt_def)

lemma idText_plain: "CHR '','' \<notin> set (idText s)" "DQ \<notin> set (idText s)"
  using showInt_plain by (simp_all add: idText_def split: option.splits)

lemma levelOrEmpty_plain: "escapeQuotes (levelOrEmpty l) = levelOrEmpty l"
proof (cases l)
  case None
  then show ?thesis
    by (simp add: levelOrEmpty_def escapeQuotes_Nil)
next
  case (Some v)
  then show ?thesis
    by (cases v) (simp_all add: levelOrEmpty_def escapeQuotes_def)
qed

lemma specRow_layout:
  "specRow s = idText s @ CHR '','' #
     quoted (escapeQuotes (orElse (parameter s) [])) @ CHR '','' #
     quoted (escapeQuotes (orElse (unit' s) [])) @ CHR '','' #
     quoted (escapeQuotes (orElse (valueA s) [])) @ CHR '','' #
     quoted (escapeQuotes (orElse (valueB s) [])) @ CHR '','' #
     quoted (escapeQuotes (levelOrEmpty (complianceB s))) @ CHR '','' #
     quoted (escapeQuotes (orElse (valueC s) [])) @ CHR '','' #
     quoted (escapeQuotes (levelOrEmpty (complianceC s))) @ CHR '','' #
     quoted (escapeQuotes (orElse (comment s) []))"
  unfolding levelOrEmpty_plain
  by (simp add: specRow_def join_def idText_def levelOrEmpty_def)

text \<open>
  Every data row reads back as nine fields, which are the values of the item: no comma
  and no quotation mark inside a value moves a field boundary.
\<close>

lemma specRow_fields:
  "csvFields (specRow s) =
    [idText s, orElse (parameter s) [], orElse (unit' s) [], orElse (valueA s) [],
     orElse (valueB s) [], levelOrEmpty (complianceB s), orElse (valueC s) [],
     levelOrEmpty (complianceC s), orElse (comment s) []]"
  unfolding csvFields_def specRow_layout
  by (simp only: csvSplit_start_plain [OF idText_plain] csvSplit_start_quoted_comma
      csvSplit_start_quoted_last)

subsection \<open>The file\<close>

lemma exportCSV_download:
  "gs \<noteq> [] \<Longrightarrow>
   exportCSV (Some \<lparr> groups = Some gs, missingFiles = ms \<rparr>) =
     Download ''Substitution_Analysis_Report.csv'' (BOM @ join [LF] (csvRows gs))"
  by (simp add: exportCSV_def)

lemma groupRows_layout:
  "groupRows index g =
     take 4 (groupRows index g)
     @ map specRow (case specs g of None \<Rightarrow> [] | Some ss \<Rightarrow> ss) @ [[], []]
   \<and> length (take 4 (groupRows index g)) = 4"
  by (simp add: groupRows_def Let_def split: option.splits)

lemma getGroupLabel_0: "getGroupLabel 0 = ''A''"
  by (simp add: getGroupLabel_def utf8_def char_of_def bit_Suc_0_iff)

lemma decimal_1: "decimal (Suc 0) = ''1''"
  by (simp add: decimal.simps digit_def)

lemma commaPartResult_rows:
  "csvRows (the (groups commaPartResult)) =
    [''\"GROUP A: LM317, TO-220 vs Substitutes\"'',
     ''\"Summary: Both substitutes match.\"'',
     ''\"Recommendation: Both\"'',
     ''ID,Parameter,Unit,Spec A (LM317, TO-220),Spec A-1 (LM317T),A-1 Result,''
       @ ''Spec A-2 (LM317BT),A-2 Result,Comment'',
     ''1,\"Output Voltage\",\"V\",\"1.2 to 37\",\"1.2 to 37\",\"Fully Compliant\",''
       @ ''\"1.2 to 37\",\"Fully Compliant\",\"Contains \"\"quotes\"\"\"'',
     [], []]"
  by (simp add: csvRows_def commaPartResult_def groupRows_def enumerate_eq_zip headers_def
      specRow_def orElse_def escapeQuotes_def quoted_def join_def getGroupLabel_0 showInt_def
      decimal_1)

text \<open>
  C8 at a result whose original part is named "LM317, TO-220". The file has the fixed
  name and begins with the byte-order mark; the three header lines are quoted, and the
  data row reads back as nine fields with the quotation marks of the comment doubled
  inside a quoted field. The column titles are joined without quotation marks, so the
  comma of the part name splits the title row into ten fields.
\<close>

theorem title_row_splits_at_comma:
  "exportCSV (Some commaPartResult) =
     Download ''Substitution_Analysis_Report.csv''
       (BOM @ join [LF]
          [''\"GROUP A: LM317, TO-220 vs Substitutes\"'',
           ''\"Summary: Both substitutes match.\"'',
           ''\"Recommendation: Both\"'',
           ''ID,Parameter,Unit,Spec A (LM317, TO-220),Spec A-1 (LM317T),A-1 Result,''
             @ ''Spec A-2 (LM317BT),A-2 Result,Comment'',
           ''1,\"Output Voltage\",\"V\",\"1.2 to 37\",\"1.2 to 37\",\"Fully Compliant\",''
             @ ''\"1.2 to 37\",\"Fully Compliant\",\"Contains \"\"quotes\"\"\"'',
           [], []])
   \<and> csvFields (''ID,Parameter,Unit,Spec A (LM317, TO-220),Spec A-1 (LM317T),A-1 Result,''
                 @ ''Spec A-2 (LM317BT),A-2 Result,Comment'') =
       [''ID'', ''Parameter'', ''Unit'', ''Spec A (LM317'', '' TO-220)'', ''Spec A-1 (LM317T)'',
        ''A-1 Result'', ''Spec A-2 (LM317BT)'', ''A-2 Result'', ''Comment'']
   \<and> csvFields (''1,\"Output Voltage\",\"V\",\"1.2 to 37\",\"1.2 to 37\",\"Fully Compliant\",''
                 @ ''\"1.2 to 37\",\"Fully Compliant\",\"Contains \"\"quotes\"\"\"'') =
       [''1'', ''Output Voltage'', ''V'', ''1.2 to 37'', ''1.2 to 37'', ''Fully Compliant'',
        ''1.2 to 37'', ''Fully Compliant'', ''Contains \"quotes\"'']"
proof -
  have "groups commaPartResult \<noteq> None" and "the (groups commaPartResult) \<noteq> []"
    by (simp_all add: commaPartResult_def)
  then have "exportCSV (Some commaPartResult) =
      Download ''Substitution_Analysis_Report.csv''
        (BOM @ join [LF] (csvRows (the (groups commaPartResult))))"
    by (auto simp: exportCSV_def)
  moreover have "csvFields (''ID,Parameter,Unit,Spec A (LM317, TO-220),Spec A-1 (LM317T),A-1 Result,''
                 @ ''Spec A-2 (LM317BT),A-2 Result,Comment'') =
       [''ID'', ''Parameter'', ''Unit'', ''Spec A (LM317'', '' TO-220)'', ''Spec A-1 (LM317T)'',
        ''A-1 Result'', ''Spec A-2 (LM317BT)'', ''A-2 Result'', ''Comment'']"
    by (simp add: csvFields_def)
  moreover have "csvFields (''1,\"Output Voltage\",\"V\",\"1.2 to 37\",\"1.2 to 37\",\"Fully Compliant\",''
                 @ ''\"1.2 to 37\",\"Fully Compliant\",\"Contains \"\"quotes\"\"\"'') =
       [''1'', ''Output Voltage'', ''V'', ''1.2 to 37'', ''1.2 to 37'', ''Fully Compliant'',
        ''1.2 to 37'', ''Fully Compliant'', ''Contains \"quotes\"'']"
    by (simp add: csvFields_def)
  ultimately show ?thesis
    by (simp only: commaPartResult_rows simp_thms)
qed

end
